theory Spec2Isabelle
  imports Main "HOL-Library.Word"
begin

unbundle bit_operations_syntax

section \<open>The receiver of internal/receiver/receiver.go\<close>

text \<open>
  A shallow embedding of the Go package \<^verbatim>\<open>receiver\<close>: the UDP discovery step, the
  length-prefixed name frame, the content loop and the top-level \<^verbatim>\<open>Handle\<close>.
  Bytes and the characters of Go strings are both 8-bit values, so a Go \<^verbatim>\<open>[]byte\<close> and a Go
  \<^verbatim>\<open>string\<close> are both \<open>char list\<close> and \<^verbatim>\<open>string(buf)\<close> is the identity.
  The platform is a 64-bit one: \<^verbatim>\<open>uint\<close> and \<^verbatim>\<open>int\<close> are 64-bit words.
\<close>

subsection \<open>Error values, results and panics\<close>

text \<open>
  A Go \<^verbatim>\<open>error\<close>. \<open>EOF\<close> and \<open>ErrUnexpectedEOF\<close> are the two sentinels of package
  \<^verbatim>\<open>io\<close>; \<open>SysErr\<close> is any error of the operating system or the network;
  \<open>PathError op path e\<close> is the \<^verbatim>\<open>*fs.PathError\<close> in which package \<^verbatim>\<open>os\<close> wraps the
  error of a file operation, with the message \<^verbatim>\<open>op path: e\<close>;
  \<open>Errorf ctx e\<close> is the value of \<^verbatim>\<open>fmt.Errorf("ctx: %s", e)\<close>, a new error that is
  never equal to a sentinel.
\<close>

datatype err =
    EOF
  | ErrUnexpectedEOF
  | SysErr string
  | PathError string string err
  | Errorf string err

fun err_Error :: "err \<Rightarrow> string" where
  "err_Error EOF = ''EOF''"
| "err_Error ErrUnexpectedEOF = ''unexpected EOF''"
| "err_Error (SysErr s) = s"
| "err_Error (PathError op path e) = op @ '' '' @ path @ '': '' @ err_Error e"
| "err_Error (Errorf ctx e) = ctx @ '': '' @ err_Error e"

text \<open>
  What a call comes back with: a value, an error value, or a run-time panic, which is
  not an error value and passes through every \<^verbatim>\<open>if err != nil\<close> of the callers.
\<close>

datatype 'a result =
    Ok 'a
  | Err err
  | Panicked string

type_synonym byte = char

subsection \<open>The stream connection\<close>

text \<open>
  A connection is what the peer and the network will still deliver: a list of segments,
  each a run of bytes with the error, if any, that arrives with its last byte. Once the
  list is used up the connection is closed and every read reports \<open>EOF\<close>.

  \<open>conn_Read c k\<close> is \<^verbatim>\<open>con.Read(buf)\<close> for a buffer of \<open>k\<close> bytes: it gives the bytes
  \<^verbatim>\<open>buf[:n]\<close>, the error, and the connection afterwards. A read never returns more than
  the buffer holds; a segment longer than the buffer is handed out in pieces, the error
  with the last one. A read into an empty buffer returns \<^verbatim>\<open>0, nil\<close> at once, as the
  TCP connection of package \<^verbatim>\<open>net\<close> does.
\<close>

type_synonym conn = "(byte list \<times> err option) list"

definition conn_Read :: "conn \<Rightarrow> nat \<Rightarrow> (byte list \<times> err option) \<times> conn" where
  "conn_Read c k =
     (if k = 0 then (([], None), c)
      else (case c of
              [] \<Rightarrow> (([], Some EOF), [])
            | (bs, e) # c' \<Rightarrow>
                (if length bs \<le> k then ((bs, e), c')
                 else ((take k bs, None), (drop k bs, e) # c'))))"

fun conn_size :: "conn \<Rightarrow> nat" where
  "conn_size [] = 0"
| "conn_size ((bs, e) # c) = Suc (length bs) + conn_size c"

text \<open>
  \<^verbatim>\<open>io.ReadAtLeast\<close> of the Go library, for \<^verbatim>\<open>min = len(buf)\<close>:
  \<^verbatim>\<open>
  for n < min && err == nil {
      var nn int
      nn, err = r.Read(buf[n:])
      n += nn
  }
  if n >= min { err = nil } else if n > 0 && err == EOF { err = ErrUnexpectedEOF }
  \<close>
  The model carries the bytes read so far, \<^verbatim>\<open>buf[:n]\<close>, instead of the count.
\<close>

function ReadAtLeast_loop ::
  "conn \<Rightarrow> nat \<Rightarrow> byte list \<Rightarrow> err option \<Rightarrow> (byte list \<times> err option) \<times> conn" where
  "ReadAtLeast_loop r mn buf err =
     (if length buf < mn \<and> err = None then
        (case conn_Read r (mn - length buf) of
           ((bs, e), r') \<Rightarrow> ReadAtLeast_loop r' mn (buf @ bs) e)
      else ((buf, err), r))"
  by pat_completeness auto
termination
proof (relation "measure (\<lambda>(r, mn, buf, err). if err = None then Suc (conn_size r) else 0)")
  fix r :: conn and mn :: nat and buf :: "byte list" and err :: "err option" and x1 x2 bs e
  assume a: "length buf < mn \<and> err = None"
    and b: "(x1, x2) = conn_Read r (mn - length buf)"
    and c: "(bs, e) = x1"
  from b c have rd: "conn_Read r (mn - length buf) = ((bs, e), x2)" by simp
  from a have pos: "0 < mn - length buf" by simp
  have "e = None \<Longrightarrow> conn_size x2 < conn_size r"
    using pos rd by (cases r) (auto simp: conn_Read_def split: if_splits)
  with a show "((x2, mn, buf @ bs, e), r, mn, buf, err)
          \<in> measure (\<lambda>(r, mn, buf, err). if err = None then Suc (conn_size r) else 0)"
    by auto
qed simp

declare ReadAtLeast_loop.simps [simp del]

definition io_ReadFull :: "conn \<Rightarrow> nat \<Rightarrow> (byte list \<times> err option) \<times> conn" where
  "io_ReadFull r n =
     (case ReadAtLeast_loop r n [] None of
        ((buf, err), r') \<Rightarrow>
          (if length buf \<ge> n then ((buf, None), r')
           else if length buf > 0 \<and> err = Some EOF then ((buf, Some ErrUnexpectedEOF), r')
           else ((buf, err), r')))"

subsection \<open>The name frame\<close>

text \<open>
  \<^verbatim>\<open>binary.LittleEndian.Uint32\<close>:
  \<^verbatim>\<open>uint32(b[0]) | uint32(b[1])<<8 | uint32(b[2])<<16 | uint32(b[3])<<24\<close>,
  with an index panic on a slice shorter than four bytes.
\<close>

fun LittleEndian_Uint32 :: "byte list \<Rightarrow> 32 word option" where
  "LittleEndian_Uint32 (b0 # b1 # b2 # b3 # _) =
     Some (of_char b0 OR push_bit 8 (of_char b1) OR push_bit 16 (of_char b2)
             OR push_bit 24 (of_char b3))"
| "LittleEndian_Uint32 _ = None"

definition receiveFileNameLen :: "conn \<Rightarrow> (32 word) result \<times> conn" where
  "receiveFileNameLen con =
     (case io_ReadFull con 4 of
        ((lenBuf, Some e), con') \<Rightarrow> (Err (Errorf ''err receiving file name length'' e), con')
      | ((lenBuf, None), con') \<Rightarrow>
          (case LittleEndian_Uint32 lenBuf of
             None \<Rightarrow> (Panicked ''index out of range'', con')
           | Some fileNameLen \<Rightarrow> (Ok fileNameLen, con')))"

definition receiveFileName :: "conn \<Rightarrow> string result \<times> conn" where
  "receiveFileName con =
     (case receiveFileNameLen con of
        (Panicked m, con') \<Rightarrow> (Panicked m, con')
      | (Err e, con') \<Rightarrow> (Err (Errorf ''err receiving file name len'' e), con')
      | (Ok fileNameLen, con') \<Rightarrow>
          (case io_ReadFull con' (unat fileNameLen) of
             ((nameBuf, Some e), con'') \<Rightarrow> (Err (Errorf ''err receiving file name'' e), con'')
           | ((nameBuf, None), con'') \<Rightarrow> (Ok nameBuf, con'')))"

subsection \<open>The destination name\<close>

text \<open>
  \<^verbatim>\<open>path.Ext\<close> of the Go library:
  \<^verbatim>\<open>
  for i := len(path) - 1; i >= 0 && path[i] != '/'; i-- {
      if path[i] == '.' { return path[i:] }
  }
  return ""
  \<close>
  \<open>Ext_loop p (Suc i)\<close> is the loop about to look at index \<open>i\<close>; \<open>Ext_loop p 0\<close> is the
  loop left with \<^verbatim>\<open>i = -1\<close>.
\<close>

fun Ext_loop :: "string \<Rightarrow> nat \<Rightarrow> string" where
  "Ext_loop p 0 = []"
| "Ext_loop p (Suc i) =
     (if p ! i = CHR ''/'' then []
      else if p ! i = CHR ''.'' then drop i p
      else Ext_loop p i)"

definition path_Ext :: "string \<Rightarrow> string" where
  "path_Ext p = Ext_loop p (length p)"

text \<open>The verb \<^verbatim>\<open>%d\<close> of \<^verbatim>\<open>fmt\<close>: decimal digits, with a minus sign below zero.\<close>

fun show_nat :: "nat \<Rightarrow> string" where
  "show_nat n =
     (if n < 10 then [''0123456789'' ! n]
      else show_nat (n div 10) @ [''0123456789'' ! (n mod 10)])"

declare show_nat.simps [simp del]

definition show_int :: "int \<Rightarrow> string" where
  "show_int i = (if i < 0 then CHR ''-'' # show_nat (nat (- i)) else show_nat (nat i))"

subsection \<open>The world outside the process\<close>

text \<open>
  Everything the receiver asks of the operating system, as one record:
  \<^item> \<open>udp_listen port\<close>: the error of \<^verbatim>\<open>net.ListenUDP\<close> on that port, if it fails;
  \<^item> \<open>udp_datagram\<close>: what \<^verbatim>\<open>ReadFromUDP\<close> meets, an error or the datagram that arrives;
  \<^item> \<open>tcp_dial addr\<close>: the error of \<^verbatim>\<open>net.Dial("tcp", addr)\<close>, or the connection;
  \<^item> \<open>tcp_close\<close>: the error of \<^verbatim>\<open>con.Close()\<close>, if it fails;
  \<^item> \<open>clock\<close>: \<^verbatim>\<open>time.Now().Unix()\<close>, an \<^verbatim>\<open>int64\<close>;
  \<^item> \<open>create_err name\<close>: the error of \<^verbatim>\<open>os.Create(name)\<close>, if it fails;
  \<^item> \<open>files\<close>: the contents of the files of the working directory;
  \<^item> \<open>room\<close>: how many more bytes the storage takes, \<open>None\<close> for no limit;
  \<^item> \<open>write_fault\<close>: the text of the error number that the write system call gives once
    the storage takes no more;
  \<^item> \<open>logged\<close>: the lines written by \<^verbatim>\<open>log.Printf\<close>.
\<close>

record world =
  udp_listen :: "int \<Rightarrow> err option"
  udp_datagram :: "err + byte list"
  tcp_dial :: "string \<Rightarrow> err + conn"
  tcp_close :: "err option"
  clock :: "64 word"
  create_err :: "string \<Rightarrow> err option"
  files :: "string \<rightharpoonup> byte list"
  room :: "nat option"
  write_fault :: string
  logged :: "string list"

definition log_Printf :: "string \<Rightarrow> world \<Rightarrow> world" where
  "log_Printf line w = w\<lparr>logged := logged w @ [line]\<rparr>"

text \<open>\<^verbatim>\<open>os.Create\<close>: the file is created, or cut to length zero when it exists.\<close>

definition os_Create :: "string \<Rightarrow> world \<Rightarrow> err option \<times> world" where
  "os_Create name w =
     (case create_err w name of
        Some e \<Rightarrow> (Some e, w)
      | None \<Rightarrow> (None, w\<lparr>files := (files w)(name \<mapsto> [])\<rparr>))"

text \<open>
  \<^verbatim>\<open>file.Write(b)\<close> appends to the file. When the storage has no room for all of \<open>b\<close> it
  takes what fits and reports the error of the system call, as a short write does. The
  error comes back as \<^verbatim>\<open>&PathError{Op: "write", Path: name, Err: e}\<close>.
\<close>

definition file_Write :: "string \<Rightarrow> byte list \<Rightarrow> world \<Rightarrow> err option \<times> world" where
  "file_Write name b w =
     (case files w name of
        None \<Rightarrow> (Some (PathError ''write'' name (SysErr ''file already closed'')), w)
      | Some old \<Rightarrow>
          (case room w of
             None \<Rightarrow> (None, w\<lparr>files := (files w)(name \<mapsto> old @ b)\<rparr>)
           | Some m \<Rightarrow>
               (if length b \<le> m
                then (None, w\<lparr>files := (files w)(name \<mapsto> old @ b), room := Some (m - length b)\<rparr>)
                else (Some (PathError ''write'' name (SysErr (write_fault w))),
                      w\<lparr>files := (files w)(name \<mapsto> old @ take m b), room := Some 0\<rparr>))))"

subsection \<open>The receiver\<close>

record receiver =
  chunkSize :: "64 word"
  udpDiscoveryPort :: "64 word"

definition NewReceiver :: "64 word \<Rightarrow> 64 word \<Rightarrow> receiver" where
  "NewReceiver cs port = \<lparr>chunkSize = cs, udpDiscoveryPort = port\<rparr>"

definition prepareDestFilePath :: "world \<Rightarrow> string \<Rightarrow> string" where
  "prepareDestFilePath w filePath =
     (let fileExt = path_Ext filePath
      in show_int (sint (clock w)) @ fileExt)"

text \<open>
  The \<^verbatim>\<open>for { ... }\<close> of \<^verbatim>\<open>receiveAndSaveFileContent\<close>, for a chunk buffer of \<open>k\<close> bytes.
  \<open>Inr total\<close> is the \<^verbatim>\<open>break\<close>, \<open>Inl e\<close> a \<^verbatim>\<open>return\<close> from inside the loop, and \<open>None\<close> a
  loop that never ends.
\<close>

partial_function (option) content_loop ::
  "nat \<Rightarrow> string \<Rightarrow> conn \<Rightarrow> world \<Rightarrow> 64 word \<Rightarrow> ((err + 64 word) \<times> world) option" where
  "content_loop k file con w totalBytesReceived =
     (case conn_Read con k of
        ((chunk, Some e), con') \<Rightarrow>
          (if e = EOF then Some (Inr totalBytesReceived, w)
           else Some (Inl (Errorf ''err receiving file chunk'' e), w))
      | ((chunk, None), con') \<Rightarrow>
          (case file_Write file chunk w of
             (Some e, w') \<Rightarrow> Some (Inl (Errorf ''err writing chunk to the file'' e), w')
           | (None, w') \<Rightarrow>
               content_loop k file con' w' (totalBytesReceived + word_of_nat (length chunk))))"

text \<open>
  \<^verbatim>\<open>make([]byte, n)\<close> for a length \<open>n\<close> of type \<^verbatim>\<open>uint\<close>. The run-time system converts
  the length to \<^verbatim>\<open>int\<close> and panics with \<^verbatim>\<open>makeslice: len out of range\<close> when it is below
  zero or above \<open>maxAlloc\<close>, the largest size it allocates (\<open>2 ^ 48\<close> bytes on
  linux/amd64). \<open>Inr k\<close> is a slice of \<open>k\<close> bytes, \<open>Inl m\<close> the panic with message \<open>m\<close>.
  A machine that runs out of memory below that size is outside the model.
\<close>

definition maxAlloc :: nat where
  "maxAlloc = 2 ^ 48"

definition make_bytes :: "64 word \<Rightarrow> string + nat" where
  "make_bytes n =
     (if sint n < 0 \<or> maxAlloc < unat n
      then Inl ''runtime error: makeslice: len out of range''
      else Inr (unat n))"

text \<open>
  \<^verbatim>\<open>receiveAndSaveFileContent\<close>: the chunk buffer, the loop, and the log line after the
  \<^verbatim>\<open>break\<close>. \<open>Ok ()\<close> is the \<^verbatim>\<open>return nil\<close>.
\<close>

definition receiveAndSaveFileContent ::
  "receiver \<Rightarrow> conn \<Rightarrow> string \<Rightarrow> world \<Rightarrow> (unit result \<times> world) option" where
  "receiveAndSaveFileContent r con file w =
     (case make_bytes (chunkSize r) of
        Inl m \<Rightarrow> Some (Panicked m, w)
      | Inr k \<Rightarrow>
          (case content_loop k file con w 0 of
             None \<Rightarrow> None
           | Some (Inl e, w') \<Rightarrow> Some (Err e, w')
           | Some (Inr totalBytesReceived, w') \<Rightarrow>
               Some (Ok (),
                 log_Printf (''received '' @ show_int (sint totalBytesReceived)
                               @ '' bytes from the sender'') w')))"

definition receiveFile :: "receiver \<Rightarrow> conn \<Rightarrow> world \<Rightarrow> (unit result \<times> world) option" where
  "receiveFile r con w =
     (case receiveFileName con of
        (Panicked m, con') \<Rightarrow> Some (Panicked m, w)
      | (Err e, con') \<Rightarrow> Some (Err (Errorf ''err receiving file name'' e), w)
      | (Ok filePath, con') \<Rightarrow>
          (let destFilePath = prepareDestFilePath w filePath
           in (case os_Create destFilePath w of
                 (Some e, w') \<Rightarrow> Some (Err (Errorf ''err creating dest file'' e), w')
               | (None, w') \<Rightarrow>
                   (case receiveAndSaveFileContent r con' destFilePath w' of
                      None \<Rightarrow> None
                    | Some (Panicked m, w'') \<Rightarrow> Some (Panicked m, w'')
                    | Some (Err e, w'') \<Rightarrow>
                        Some (Err (Errorf ''err receiving and saving file content'' e), w'')
                    | Some (Ok u, w'') \<Rightarrow> Some (Ok (), w'')))))"

subsection \<open>Discovery\<close>

text \<open>
  \<^verbatim>\<open>strings.Split(s, sep)\<close> for a separator of one byte: the string is cut at every
  separator, so \<open>n\<close> separators give \<open>n + 1\<close> pieces, empty ones among them.
\<close>

fun strings_Split :: "string \<Rightarrow> char \<Rightarrow> string list" where
  "strings_Split [] sep = [[]]"
| "strings_Split (x # xs) sep =
     (if x = sep then [] # strings_Split xs sep
      else (case strings_Split xs sep of
              [] \<Rightarrow> [[x]]
            | piece # pieces \<Rightarrow> (x # piece) # pieces))"

text \<open>
  \<^verbatim>\<open>con.ReadFromUDP(buffer)\<close>: the datagram is copied into the buffer as far as the
  buffer goes, and what does not fit is lost.
\<close>

definition ReadFromUDP :: "world \<Rightarrow> nat \<Rightarrow> err + byte list" where
  "ReadFromUDP w n = (case udp_datagram w of Inl e \<Rightarrow> Inl e | Inr d \<Rightarrow> Inr (take n d))"

definition discover :: "receiver \<Rightarrow> world \<Rightarrow> string result" where
  "discover r w =
     (case udp_listen w (sint (udpDiscoveryPort r)) of
        Some e \<Rightarrow> Err (Errorf ''err starting up udp listener'' e)
      | None \<Rightarrow>
          (case ReadFromUDP w 1024 of
             Inl e \<Rightarrow> Err (Errorf ''err reading from udp'' e)
           | Inr message \<Rightarrow>
               (let messageSections = strings_Split message CHR '' ''
                in if length messageSections = 0 then Panicked ''index out of range [-1]''
                   else Ok (''localhost:'' @ messageSections ! (length messageSections - 1)))))"

subsection \<open>The top-level handler\<close>

text \<open>The \<^verbatim>\<open>for _, peer := range peers\<close> of \<^verbatim>\<open>Handle\<close>, and \<^verbatim>\<open>Handle\<close> itself.\<close>

fun Handle_peers :: "receiver \<Rightarrow> string list \<Rightarrow> world \<Rightarrow> (unit result \<times> world) option" where
  "Handle_peers r [] w = Some (Ok (), w)"
| "Handle_peers r (peer # peers) w =
     (case tcp_dial w peer of
        Inl e \<Rightarrow> Handle_peers r peers (log_Printf (''err connecting to peer: '' @ err_Error e) w)
      | Inr con \<Rightarrow>
          (case receiveFile r con (log_Printf (''connected to peer: '' @ peer) w) of
             None \<Rightarrow> None
           | Some (Panicked m, w') \<Rightarrow> Some (Panicked m, w')
           | Some (Err e, w') \<Rightarrow> Some (Err (Errorf ''err receiving file'' e), w')
           | Some (Ok u, w') \<Rightarrow>
               (case tcp_close w' of
                  Some e \<Rightarrow> Some (Err (Errorf ''err closing connection'' e), w')
                | None \<Rightarrow> Handle_peers r peers w')))"

definition Handle :: "receiver \<Rightarrow> world \<Rightarrow> (unit result \<times> world) option" where
  "Handle r w =
     (case discover r w of
        Panicked m \<Rightarrow> Some (Panicked m, w)
      | Err e \<Rightarrow> Some (Err (Errorf ''err searching for discovery msg'' e), w)
      | Ok peer \<Rightarrow> Handle_peers r [peer] w)"

section \<open>The vocabulary of the statements\<close>

subsection \<open>Connections\<close>

text \<open>
  \<open>delivers segs\<close> is a connection on which the segments \<open>segs\<close> arrive one after the
  other with no error. Alone it is a peer that sends \<open>concat segs\<close> and closes; followed
  by \<open>tail\<close> it is a connection that goes on as \<open>tail\<close> says.
\<close>

definition delivers :: "byte list list \<Rightarrow> conn" where
  "delivers segs = map (\<lambda>bs. (bs, None)) segs"

text \<open>The first error a connection signals; the clean \<open>EOF\<close> when it signals no other.\<close>

fun first_err :: "conn \<Rightarrow> err" where
  "first_err [] = EOF"
| "first_err ((bs, None) # c) = first_err c"
| "first_err ((bs, Some e) # c) = e"

subsection \<open>Storage\<close>

text \<open>
  \<open>fits w n\<close>: the storage takes \<open>n\<close> more bytes. \<open>appended name b w\<close>: the world after
  \<open>b\<close> has gone to the end of the file \<open>name\<close>.
\<close>

definition fits :: "world \<Rightarrow> nat \<Rightarrow> bool" where
  "fits w n = (case room w of None \<Rightarrow> True | Some m \<Rightarrow> n \<le> m)"

definition appended :: "string \<Rightarrow> byte list \<Rightarrow> world \<Rightarrow> world" where
  "appended name b w =
     (case files w name of
        None \<Rightarrow> w
      | Some old \<Rightarrow>
          w\<lparr>files := (files w)(name \<mapsto> old @ b),
            room := map_option (\<lambda>m. m - length b) (room w)\<rparr>)"

subsection \<open>The sender's side of the name frame\<close>

text \<open>
  Modelled from the spec: the sender's encoder, which is not part of this package. The
  wire format asks for the length as a 4-byte little-endian unsigned integer, which is
  \<^verbatim>\<open>binary.LittleEndian.PutUint32\<close>: the four bytes of the length, lowest first.
  A name frame is that length followed by the payload.
\<close>

definition PutUint32 :: "32 word \<Rightarrow> byte list" where
  "PutUint32 v =
     [char_of (unat v), char_of (unat (drop_bit 8 v)),
      char_of (unat (drop_bit 16 v)), char_of (unat (drop_bit 24 v))]"

definition name_frame :: "byte list \<Rightarrow> byte list" where
  "name_frame payload = PutUint32 (word_of_nat (length payload)) @ payload"

subsection \<open>Tokens and extensions as the specification words them\<close>

text \<open>
  Splitting on whitespace: the tokens are the longest runs of characters that are not
  white space (tab, line feed, vertical tab, form feed, carriage return, space).
\<close>

definition isSpace :: "char \<Rightarrow> bool" where
  "isSpace c = (c \<in> set [CHR 0x09, CHR 0x0A, CHR 0x0B, CHR 0x0C, CHR 0x0D, CHR 0x20])"

fun fields_from :: "string \<Rightarrow> string \<Rightarrow> string list" where
  "fields_from cur [] = (if cur = [] then [] else [rev cur])"
| "fields_from cur (c # cs) =
     (if isSpace c then (if cur = [] then fields_from [] cs else rev cur # fields_from [] cs)
      else fields_from (c # cur) cs)"

definition whitespace_fields :: "string \<Rightarrow> string list" where
  "whitespace_fields s = fields_from [] s"

definition last_token_address :: "string \<Rightarrow> string" where
  "last_token_address message = ''localhost:'' @ last (whitespace_fields message)"

text \<open>
  The substring from the last dot of a string to its end, empty when the string has no
  dot; and the final element of a slash-separated path.
\<close>

definition suffix_from_last_dot :: "string \<Rightarrow> string" where
  "suffix_from_last_dot s =
     (if CHR ''.'' \<in> set s then CHR ''.'' # rev (takeWhile (\<lambda>c. c \<noteq> CHR ''.'') (rev s))
      else [])"

definition final_element :: "string \<Rightarrow> string" where
  "final_element p = rev (takeWhile (\<lambda>c. c \<noteq> CHR ''/'') (rev p))"

subsection \<open>A world for the examples\<close>

text \<open>
  Nothing fails but the dial: the announcement \<^verbatim>\<open>HELLO 51234\<close> arrives, no sender
  listens, the clock reads 1700000000, the directory is empty and the storage has no limit.
\<close>

definition quiet_world :: world where
  "quiet_world =
     \<lparr>udp_listen = (\<lambda>port. None),
      udp_datagram = Inr ''HELLO 51234'',
      tcp_dial = (\<lambda>addr. Inl (SysErr ''connection refused'')),
      tcp_close = None,
      clock = 1700000000,
      create_err = (\<lambda>name. None),
      files = Map.empty,
      room = None,
      write_fault = ''no space left on device'',
      logged = []\<rparr>"

section \<open>Reading from a connection\<close>

lemma delivers_simps [simp]:
  "delivers [] = []"
  "delivers (s # segs) = (s, None) # delivers segs"
  by (simp_all add: delivers_def)

lemma conn_Read_size:
  "0 < k \<Longrightarrow> conn_Read c k = ((bs, e), c') \<Longrightarrow> e = None \<Longrightarrow> conn_size c' < conn_size c"
  by (cases c) (auto simp: conn_Read_def split: if_splits)

lemma conn_size_delivers: "conn_size (delivers segs) = length segs + length (concat segs)"
  by (induction segs) simp_all

lemma conn_Read_short:
  "0 < k \<Longrightarrow> length bs \<le> k \<Longrightarrow> conn_Read ((bs, e) # c) k = ((bs, e), c)"
  by (simp add: conn_Read_def)

lemma conn_Read_long:
  "0 < k \<Longrightarrow> k < length bs \<Longrightarrow>
     conn_Read ((bs, e) # c) k = ((take k bs, None), (drop k bs, e) # c)"
  by (simp add: conn_Read_def)

lemma conn_Read_closed: "0 < k \<Longrightarrow> conn_Read [] k = (([], Some EOF), [])"
  by (simp add: conn_Read_def)

lemma ReadAtLeast_loop_delivers:
  "mn \<le> length buf + length (concat segs) \<Longrightarrow>
   \<exists>segs'. ReadAtLeast_loop (delivers segs @ tail) mn buf None
              = ((buf @ take (mn - length buf) (concat segs), None), delivers segs' @ tail)
          \<and> concat segs' = drop (mn - length buf) (concat segs)"
proof (induction "length segs + length (concat segs)" arbitrary: segs buf rule: less_induct)
  case less
  show ?case
  proof (cases "length buf < mn")
    case False
    then show ?thesis
      by (subst ReadAtLeast_loop.simps) (auto intro: exI[of _ segs])
  next
    case True
    then have k: "0 < mn - length buf" by simp
    from True less.prems obtain s ss where segs: "segs = s # ss"
      by (cases segs) auto
    show ?thesis
    proof (cases "length s \<le> mn - length buf")
      case short: True
      have "length ss + length (concat ss) < length segs + length (concat segs)"
        by (simp add: segs)
      moreover have "mn \<le> length (buf @ s) + length (concat ss)"
        using less.prems by (simp add: segs)
      ultimately obtain segs' where
        r: "ReadAtLeast_loop (delivers ss @ tail) mn (buf @ s) None
              = (((buf @ s) @ take (mn - length (buf @ s)) (concat ss), None), delivers segs' @ tail)"
        and c: "concat segs' = drop (mn - length (buf @ s)) (concat ss)"
        using less.hyps[of ss "buf @ s"] by blast
      have "ReadAtLeast_loop (delivers segs @ tail) mn buf None
              = ReadAtLeast_loop (delivers ss @ tail) mn (buf @ s) None"
        using True k short
        by (subst ReadAtLeast_loop.simps) (simp add: segs conn_Read_short)
      with r c short show ?thesis
        by (intro exI[of _ segs']) (simp add: segs)
    next
      case long: False
      let ?k = "mn - length buf"
      have "length (drop ?k s # ss) + length (concat (drop ?k s # ss))
              < length segs + length (concat segs)"
        using k long by (simp add: segs)
      moreover have "mn \<le> length (buf @ take ?k s) + length (concat (drop ?k s # ss))"
        using long by simp
      ultimately obtain segs' where
        r: "ReadAtLeast_loop (delivers (drop ?k s # ss) @ tail) mn (buf @ take ?k s) None
              = (((buf @ take ?k s) @ take (mn - length (buf @ take ?k s)) (concat (drop ?k s # ss)), None),
                 delivers segs' @ tail)"
        and c: "concat segs' = drop (mn - length (buf @ take ?k s)) (concat (drop ?k s # ss))"
        using less.hyps[of "drop ?k s # ss" "buf @ take ?k s"] by blast
      have "ReadAtLeast_loop (delivers segs @ tail) mn buf None
              = ReadAtLeast_loop (delivers (drop ?k s # ss) @ tail) mn (buf @ take ?k s) None"
        using True k long
        by (subst ReadAtLeast_loop.simps) (simp add: segs conn_Read_long)
      with r c long True show ?thesis
        by (intro exI[of _ segs']) (simp add: segs min_def)
    qed
  qed
qed

lemma ReadAtLeast_loop_closes:
  "length buf + length (concat segs) < mn \<Longrightarrow>
   ReadAtLeast_loop (delivers segs) mn buf None = ((buf @ concat segs, Some EOF), [])"
proof (induction segs arbitrary: buf)
  case Nil
  then show ?case
    by (subst ReadAtLeast_loop.simps, simp add: conn_Read_closed)
       (subst ReadAtLeast_loop.simps, simp)
next
  case (Cons s segs)
  then have "length s \<le> mn - length buf" "0 < mn - length buf" "length buf < mn" by simp_all
  then have "ReadAtLeast_loop (delivers (s # segs)) mn buf None
          = ReadAtLeast_loop (delivers segs) mn (buf @ s) None"
    by (subst ReadAtLeast_loop.simps) (simp add: conn_Read_short)
  with Cons show ?case by simp
qed

lemma io_ReadFull_delivers:
  assumes "n \<le> length (concat segs)"
  shows "\<exists>segs'. io_ReadFull (delivers segs @ tail) n
                   = ((take n (concat segs), None), delivers segs' @ tail)
               \<and> concat segs' = drop n (concat segs)"
proof -
  from assms ReadAtLeast_loop_delivers[of n "[]" segs tail]
  obtain segs' where
    "ReadAtLeast_loop (delivers segs @ tail) n [] None
       = ((take n (concat segs), None), delivers segs' @ tail)"
    "concat segs' = drop n (concat segs)"
    by auto
  with assms show ?thesis
    by (intro exI[of _ segs']) (simp add: io_ReadFull_def)
qed

lemma io_ReadFull_closes:
  assumes "length (concat segs) < n"
  shows "io_ReadFull (delivers segs) n
           = ((concat segs, Some (if concat segs = [] then EOF else ErrUnexpectedEOF)), [])"
  using assms ReadAtLeast_loop_closes[of "[]" segs n]
  by (simp add: io_ReadFull_def)

section \<open>Writing to the destination file\<close>

lemma file_Write_fits:
  "files w name = Some old \<Longrightarrow> fits w (length b) \<Longrightarrow> file_Write name b w = (None, appended name b w)"
  by (auto simp: file_Write_def fits_def appended_def split: option.splits)

lemma files_appended:
  "files w name = Some old \<Longrightarrow> files (appended name b w) name = Some (old @ b)"
  by (simp add: appended_def)

lemma fits_appended:
  "files w name = Some old \<Longrightarrow> fits w (length b + n) \<Longrightarrow> fits (appended name b w) n"
  by (auto simp: appended_def fits_def split: option.splits)

lemma appended_appended:
  "files w name = Some old \<Longrightarrow>
     appended name b2 (appended name b1 w) = appended name (b1 @ b2) w"
  by (cases "room w") (simp_all add: appended_def)

lemma appended_Nil: "appended name [] w = w"
  by (cases w) (auto simp: appended_def map_upd_triv option.map_ident split: option.splits)

lemma content_loop_delivers:
  assumes k: "0 < k"
  shows "files w name = Some old \<Longrightarrow> fits w (length (concat segs)) \<Longrightarrow>
     content_loop k name (delivers segs @ tail) w t
       = content_loop k name tail (appended name (concat segs) w)
           (t + word_of_nat (length (concat segs)))"
proof (induction "length segs + length (concat segs)" arbitrary: segs w t old rule: less_induct)
  case less
  show ?case
  proof (cases segs)
    case Nil
    then show ?thesis by (simp add: appended_Nil)
  next
    case (Cons s ss)
    show ?thesis
    proof (cases "length s \<le> k")
      case True
      have w: "file_Write name s w = (None, appended name s w)"
        using less.prems by (intro file_Write_fits) (auto simp: Cons fits_def split: option.splits)
      have step: "content_loop k name (delivers segs @ tail) w t
              = content_loop k name (delivers ss @ tail) (appended name s w) (t + word_of_nat (length s))"
        using k True by (subst content_loop.simps) (simp add: Cons conn_Read_short w)
      have "content_loop k name (delivers ss @ tail) (appended name s w) (t + word_of_nat (length s))
              = content_loop k name tail (appended name (concat ss) (appended name s w))
                  (t + word_of_nat (length s) + word_of_nat (length (concat ss)))"
        using less.prems
        by (intro less.hyps[where old = "old @ s"])
           (auto simp: Cons files_appended intro: fits_appended)
      with step show ?thesis
        using less.prems(1) by (simp add: Cons appended_appended add.assoc)
    next
      case False
      then have lt: "k < length s" by simp
      have w: "file_Write name (take k s) w = (None, appended name (take k s) w)"
        using less.prems lt by (intro file_Write_fits) (auto simp: Cons fits_def split: option.splits)
      have step: "content_loop k name (delivers segs @ tail) w t
              = content_loop k name (delivers (drop k s # ss) @ tail) (appended name (take k s) w)
                  (t + word_of_nat (length (take k s)))"
        using k lt by (subst content_loop.simps) (simp add: Cons conn_Read_long w)
      have f: "fits (appended name (take k s) w) (length (concat (drop k s # ss)))"
        using less.prems lt
        by (intro fits_appended[where old = old]) (auto simp: Cons)
      have "content_loop k name (delivers (drop k s # ss) @ tail) (appended name (take k s) w)
                  (t + word_of_nat (length (take k s)))
              = content_loop k name tail
                  (appended name (concat (drop k s # ss)) (appended name (take k s) w))
                  (t + word_of_nat (length (take k s)) + word_of_nat (length (concat (drop k s # ss))))"
        using less.prems k lt f
        by (intro less.hyps[where old = "old @ take k s"])
           (auto simp: Cons files_appended)
      moreover have "appended name (concat (drop k s # ss)) (appended name (take k s) w)
                       = appended name (concat segs) w"
        using less.prems(1) by (simp add: appended_appended Cons flip: append_assoc)
      moreover have "(word_of_nat (length (take k s)) :: 64 word) + word_of_nat (length (concat (drop k s # ss)))
                       = word_of_nat (length (concat segs))"
        using lt by (simp add: Cons min_def flip: of_nat_add)
      ultimately show ?thesis
        using step by (simp add: add.assoc)
    qed
  qed
qed

lemma file_Write_full:
  "files w name = Some old \<Longrightarrow> room w = Some m \<Longrightarrow> m < length b \<Longrightarrow>
     file_Write name b w
       = (Some (PathError ''write'' name (SysErr (write_fault w))),
          w\<lparr>files := (files w)(name \<mapsto> old @ take m b), room := Some 0\<rparr>)"
  by (simp add: file_Write_def)

lemma file_Write_room:
  "files w name = Some old \<Longrightarrow> room w = Some m \<Longrightarrow> length b \<le> m \<Longrightarrow>
     file_Write name b w
       = (None, w\<lparr>files := (files w)(name \<mapsto> old @ b), room := Some (m - length b)\<rparr>)"
  by (simp add: file_Write_def)

lemma content_loop_storage_full:
  assumes k: "0 < k"
  shows "files w name = Some old \<Longrightarrow> room w = Some m \<Longrightarrow> m < length (concat segs) \<Longrightarrow>
     \<exists>w'. content_loop k name (delivers segs @ tail) w t
            = Some (Inl (Errorf ''err writing chunk to the file''
                          (PathError ''write'' name (SysErr (write_fault w)))), w')
        \<and> files w' name = Some (old @ take m (concat segs))"
proof (induction "length segs + length (concat segs)" arbitrary: segs w t old m rule: less_induct)
  case less
  from less.prems obtain s ss where segs: "segs = s # ss"
    by (cases segs) auto
  define chunk where "chunk = (if length s \<le> k then s else take k s)"
  define rest where "rest = (if length s \<le> k then ss else drop k s # ss)"
  have cat: "concat segs = chunk @ concat rest"
    by (simp add: segs chunk_def rest_def)
  have smaller: "length rest + length (concat rest) < length segs + length (concat segs)"
    using k by (auto simp: segs rest_def)
  have rd: "conn_Read (delivers segs @ tail) k = ((chunk, None), delivers rest @ tail)"
    using k by (auto simp: segs chunk_def rest_def conn_Read_short conn_Read_long)
  show ?case
  proof (cases "length chunk \<le> m")
    case True
    let ?w = "w\<lparr>files := (files w)(name \<mapsto> old @ chunk), room := Some (m - length chunk)\<rparr>"
    have wr: "file_Write name chunk w = (None, ?w)"
      using less.prems True by (simp add: file_Write_room)
    have step: "content_loop k name (delivers segs @ tail) w t
                  = content_loop k name (delivers rest @ tail) ?w (t + word_of_nat (length chunk))"
      by (subst content_loop.simps) (simp add: rd wr)
    have "m - length chunk < length (concat rest)"
      using less.prems True by (simp add: cat)
    from less.hyps[OF smaller, of ?w "old @ chunk" "m - length chunk" "t + word_of_nat (length chunk)"] this
    obtain w' where
      "content_loop k name (delivers rest @ tail) ?w (t + word_of_nat (length chunk))
         = Some (Inl (Errorf ''err writing chunk to the file''
                          (PathError ''write'' name (SysErr (write_fault w)))), w')"
      "files w' name = Some ((old @ chunk) @ take (m - length chunk) (concat rest))"
      by auto
    with step True show ?thesis
      by (intro exI[of _ w']) (simp add: cat)
  next
    case False
    let ?w = "w\<lparr>files := (files w)(name \<mapsto> old @ take m chunk), room := Some 0\<rparr>"
    have wr: "file_Write name chunk w = (Some (PathError ''write'' name (SysErr (write_fault w))), ?w)"
      using less.prems False by (simp add: file_Write_full)
    have "content_loop k name (delivers segs @ tail) w t
            = Some (Inl (Errorf ''err writing chunk to the file''
                          (PathError ''write'' name (SysErr (write_fault w)))), ?w)"
      by (subst content_loop.simps) (simp add: rd wr)
    with False show ?thesis
      by (intro exI[of _ ?w]) (simp add: cat)
  qed
qed

lemma first_err_drop: "first_err ((drop k bs, e) # c) = first_err ((bs, e) # c)"
  by (cases e) simp_all

lemma content_loop_returns:
  assumes k: "0 < k"
  shows "\<exists>res w'. content_loop k name c w t = Some (res, w')
           \<and> (case res of
                 Inr n \<Rightarrow> first_err c = EOF
               | Inl x \<Rightarrow>
                   (x = Errorf ''err receiving file chunk'' (first_err c) \<and> first_err c \<noteq> EOF)
                   \<or> (\<exists>we. x = Errorf ''err writing chunk to the file'' we
                             \<and> (files w name = None \<or> room w \<noteq> None)))"
proof (induction "conn_size c" arbitrary: c w t rule: less_induct)
  case less
  show ?case
  proof (cases c)
    case Nil
    then show ?thesis
      using k by (subst content_loop.simps) (simp add: conn_Read_closed)
  next
    case (Cons se c')
    obtain bs e where se: "se = (bs, e)" by (cases se)
    show ?thesis
    proof (cases "length bs \<le> k \<and> e \<noteq> None")
      case True
      then obtain er where "e = Some er" by auto
      with True show ?thesis
        using k by (subst content_loop.simps) (simp add: Cons se conn_Read_short)
    next
      case False
      define chunk where "chunk = (if length bs \<le> k then bs else take k bs)"
      define rest where "rest = (if length bs \<le> k then c' else (drop k bs, e) # c')"
      have rd: "conn_Read c k = ((chunk, None), rest)"
        using k False by (auto simp: Cons se chunk_def rest_def conn_Read_short conn_Read_long)
      have smaller: "conn_size rest < conn_size c"
        using k by (auto simp: Cons se rest_def)
      have fe: "first_err rest = first_err c"
        using False by (auto simp: Cons se rest_def first_err_drop)
      obtain we w1 where wr: "file_Write name chunk w = (we, w1)"
        by (cases "file_Write name chunk w")
      show ?thesis
      proof (cases we)
        case (Some x)
        have "files w name = None \<or> room w \<noteq> None"
          using wr Some by (auto simp: file_Write_def split: option.splits if_splits)
        then show ?thesis
          by (subst content_loop.simps) (simp add: rd wr Some)
      next
        case None
        have keep: "files w1 name = None \<or> room w1 \<noteq> None \<Longrightarrow> files w name = None \<or> room w \<noteq> None"
          using wr None by (auto simp: file_Write_def split: option.splits if_splits)
        have step: "content_loop k name c w t
                      = content_loop k name rest w1 (t + word_of_nat (length chunk))"
          by (subst content_loop.simps) (simp add: rd wr None)
        from less.hyps[OF smaller, of w1 "t + word_of_nat (length chunk)"]
        obtain res w' where
          r: "content_loop k name rest w1 (t + word_of_nat (length chunk)) = Some (res, w')"
          and p: "(case res of
                 Inr n \<Rightarrow> first_err rest = EOF
               | Inl x \<Rightarrow>
                   (x = Errorf ''err receiving file chunk'' (first_err rest) \<and> first_err rest \<noteq> EOF)
                   \<or> (\<exists>we. x = Errorf ''err writing chunk to the file'' we
                             \<and> (files w1 name = None \<or> room w1 \<noteq> None)))"
          by blast
        from p keep have "(case res of
                 Inr n \<Rightarrow> first_err c = EOF
               | Inl x \<Rightarrow>
                   (x = Errorf ''err receiving file chunk'' (first_err c) \<and> first_err c \<noteq> EOF)
                   \<or> (\<exists>we. x = Errorf ''err writing chunk to the file'' we
                             \<and> (files w name = None \<or> room w \<noteq> None)))"
          by (auto simp: fe split: sum.splits)
        with step r show ?thesis by simp
      qed
    qed
  qed
qed

section \<open>The name frame on the wire\<close>

lemma of_char_char_of_word: "(of_char (char_of (unat (y :: 32 word))) :: 32 word) = take_bit 8 y"
proof -
  have "(of_char (char_of (unat y)) :: 32 word) = of_nat (of_char (char_of (unat y)))"
    by (simp only: of_nat_of_char)
  also have "\<dots> = of_nat (take_bit 8 (unat y))"
    by (simp only: of_char_of take_bit_eq_mod) simp
  also have "\<dots> = take_bit 8 (of_nat (unat y))"
    by (simp only: of_nat_take_bit)
  also have "\<dots> = take_bit 8 y" by simp
  finally show ?thesis .
qed

lemma bytes_of_word:
  "take_bit 8 x OR push_bit 8 (take_bit 8 (drop_bit 8 x)) OR push_bit 16 (take_bit 8 (drop_bit 16 x))
          OR push_bit 24 (take_bit 8 (drop_bit 24 x)) = (x :: 32 word)"
proof (rule bit_eqI)
  fix n
  assume "possible_bit TYPE(32 word) n"
  then have n: "n < 32" by (simp add: possible_bit_def)
  consider "n < 8" | "8 \<le> n" "n < 16" | "16 \<le> n" "n < 24" | "24 \<le> n" "n < 32"
    using n by arith
  then show "bit (take_bit 8 x OR push_bit 8 (take_bit 8 (drop_bit 8 x))
                OR push_bit 16 (take_bit 8 (drop_bit 16 x))
                OR push_bit 24 (take_bit 8 (drop_bit 24 x))) n = bit x n"
    by cases (auto simp add: bit_or_iff bit_take_bit_iff bit_push_bit_iff bit_drop_bit_eq)
qed

lemma Uint32_PutUint32: "LittleEndian_Uint32 (PutUint32 v @ bs) = Some v"
  by (simp add: PutUint32_def of_char_char_of_word bytes_of_word)

lemma length_PutUint32 [simp]: "length (PutUint32 v) = 4"
  by (simp add: PutUint32_def)

lemma unat_length32: "n < 2 ^ 32 \<Longrightarrow> unat (word_of_nat n :: 32 word) = n"
  by (simp add: unat_of_nat take_bit_nat_eq_self)

lemma receiveFileNameLen_delivers:
  assumes "4 \<le> length (concat segs)" and "LittleEndian_Uint32 (take 4 (concat segs)) = Some n"
  shows "\<exists>segs'. receiveFileNameLen (delivers segs @ tail) = (Ok n, delivers segs' @ tail)
               \<and> concat segs' = drop 4 (concat segs)"
proof -
  from io_ReadFull_delivers[OF assms(1), of tail] obtain segs' where
    "io_ReadFull (delivers segs @ tail) 4 = ((take 4 (concat segs), None), delivers segs' @ tail)"
    "concat segs' = drop 4 (concat segs)"
    by blast
  with assms(2) show ?thesis
    by (intro exI[of _ segs']) (simp add: receiveFileNameLen_def)
qed

lemma receiveFileName_delivers:
  assumes "LittleEndian_Uint32 (take 4 (concat segs)) = Some n"
    and "4 + unat n \<le> length (concat segs)"
  shows "\<exists>segs'. receiveFileName (delivers segs @ tail)
                   = (Ok (take (unat n) (drop 4 (concat segs))), delivers segs' @ tail)
               \<and> concat segs' = drop (4 + unat n) (concat segs)"
proof -
  from assms(2) have four: "4 \<le> length (concat segs)" by simp
  from receiveFileNameLen_delivers[OF four assms(1), of tail] obtain segs1 where
    l: "receiveFileNameLen (delivers segs @ tail) = (Ok n, delivers segs1 @ tail)"
    and c1: "concat segs1 = drop 4 (concat segs)"
    by blast
  from assms(2) c1 have "unat n \<le> length (concat segs1)" by simp
  from io_ReadFull_delivers[OF this, of tail] obtain segs' where
    "io_ReadFull (delivers segs1 @ tail) (unat n) = ((take (unat n) (concat segs1), None), delivers segs' @ tail)"
    "concat segs' = drop (unat n) (concat segs1)"
    by blast
  with l c1 show ?thesis
    by (intro exI[of _ segs']) (simp add: receiveFileName_def add.commute)
qed

lemma receiveFileName_frame:
  assumes "length p < 2 ^ 32" and "concat segs = name_frame p @ content"
  shows "\<exists>segs'. receiveFileName (delivers segs @ tail) = (Ok p, delivers segs' @ tail)
               \<and> concat segs' = content"
proof -
  let ?n = "word_of_nat (length p) :: 32 word"
  have u: "unat ?n = length p" using assms(1) by (rule unat_length32)
  have d: "LittleEndian_Uint32 (take 4 (concat segs)) = Some ?n"
    using Uint32_PutUint32[of ?n "[]"] by (simp add: assms(2) name_frame_def)
  have "4 + unat ?n \<le> length (concat segs)"
    by (simp add: assms(2) name_frame_def u)
  from receiveFileName_delivers[OF d this, of tail] show ?thesis
    by (simp add: assms(2) name_frame_def u)
qed

lemma PutUint32_10: "PutUint32 10 = [CHR 0x0A, CHR 0x00, CHR 0x00, CHR 0x00]"
  by code_simp

lemma Uint32_10: "LittleEndian_Uint32 [CHR 0x0A, CHR 0x00, CHR 0x00, CHR 0x00] = Some 10"
  by simp

text \<open>
  Claim C3. For every payload of fewer than \<open>2 ^ 32\<close> bytes: the receiver's decoder gives
  back the length that the sender's four little-endian bytes encode, and when the frame
  arrives on a connection, cut into segments in any way and followed by any content,
  \<^verbatim>\<open>receiveFileNameLen\<close> returns that length and \<^verbatim>\<open>receiveFileName\<close> returns exactly the
  payload, leaving the content on the connection.
\<close>

theorem name_frame_round_trip:
  assumes "length p < 2 ^ 32" and "concat segs = name_frame p @ content"
  shows "LittleEndian_Uint32 (PutUint32 (word_of_nat (length p))) = Some (word_of_nat (length p))
       \<and> unat (word_of_nat (length p) :: 32 word) = length p
       \<and> (\<exists>segs1. receiveFileNameLen (delivers segs @ tail)
                     = (Ok (word_of_nat (length p)), delivers segs1 @ tail)
                 \<and> concat segs1 = p @ content)
       \<and> (\<exists>segs2. receiveFileName (delivers segs @ tail) = (Ok p, delivers segs2 @ tail)
                 \<and> concat segs2 = content)"
proof -
  let ?n = "word_of_nat (length p) :: 32 word"
  have a: "LittleEndian_Uint32 (PutUint32 ?n) = Some ?n"
    using Uint32_PutUint32[of ?n "[]"] by simp
  have b: "unat ?n = length p" using assms(1) by (rule unat_length32)
  have d: "LittleEndian_Uint32 (take 4 (concat segs)) = Some ?n"
    using a by (simp add: assms(2) name_frame_def)
  have "4 \<le> length (concat segs)" by (simp add: assms(2) name_frame_def)
  from receiveFileNameLen_delivers[OF this d, of tail]
  have c: "\<exists>segs1. receiveFileNameLen (delivers segs @ tail) = (Ok ?n, delivers segs1 @ tail)
                 \<and> concat segs1 = p @ content"
    by (simp add: assms(2) name_frame_def)
  from a b c receiveFileName_frame[OF assms, of tail] show ?thesis by blast
qed

theorem name_frame_round_trip_witness:
  "length ''report.pdf'' < (2::nat) ^ 32
   \<and> concat [[CHR 0x0A, CHR 0x00, CHR 0x00], [CHR 0x00] @ ''repo'', ''rt.pdfHEL'', ''LO'']
        = name_frame ''report.pdf'' @ ''HELLO''
   \<and> (\<exists>segs2. receiveFileName
                  (delivers [[CHR 0x0A, CHR 0x00, CHR 0x00], [CHR 0x00] @ ''repo'', ''rt.pdfHEL'', ''LO'']
                     @ [([], Some (SysErr ''connection reset by peer''))])
          = (Ok ''report.pdf'', delivers segs2 @ [([], Some (SysErr ''connection reset by peer''))])
        \<and> concat segs2 = ''HELLO'')"
  using name_frame_round_trip[of "''report.pdf''"
      "[[CHR 0x0A, CHR 0x00, CHR 0x00], [CHR 0x00] @ ''repo'', ''rt.pdfHEL'', ''LO'']" "''HELLO''"
      "[([], Some (SysErr ''connection reset by peer''))]"]
  by (simp add: name_frame_def PutUint32_10)

text \<open>
  Claim C2. A peer that closes after fewer than four bytes makes the session fail with
  the read error of the name length (\<open>EOF\<close> when nothing came, \<open>ErrUnexpectedEOF\<close>
  otherwise); a peer that declares a name of \<open>n\<close> bytes and closes before the \<open>n\<close> bytes
  have come makes it fail with the read error of the name. In both cases the world is
  left as it was: no file is created and nothing is written.
\<close>

theorem truncated_handshake:
  "(length (concat segs) < 4 \<longrightarrow>
      receiveFile r (delivers segs) w
        = Some (Err (Errorf ''err receiving file name''
                      (Errorf ''err receiving file name len''
                        (Errorf ''err receiving file name length''
                          (if concat segs = [] then EOF else ErrUnexpectedEOF)))), w))
   \<and> (LittleEndian_Uint32 (take 4 (concat segs)) = Some n
        \<and> 4 \<le> length (concat segs) \<and> length (concat segs) < 4 + unat n \<longrightarrow>
      receiveFile r (delivers segs) w
        = Some (Err (Errorf ''err receiving file name''
                      (Errorf ''err receiving file name''
                        (if length (concat segs) = 4 then EOF else ErrUnexpectedEOF))), w))"
proof (intro conjI impI)
  assume "length (concat segs) < 4"
  from io_ReadFull_closes[OF this]
  show "receiveFile r (delivers segs) w
        = Some (Err (Errorf ''err receiving file name''
                      (Errorf ''err receiving file name len''
                        (Errorf ''err receiving file name length''
                          (if concat segs = [] then EOF else ErrUnexpectedEOF)))), w)"
    by (simp add: receiveFile_def receiveFileName_def receiveFileNameLen_def)
next
  assume a: "LittleEndian_Uint32 (take 4 (concat segs)) = Some n
        \<and> 4 \<le> length (concat segs) \<and> length (concat segs) < 4 + unat n"
  then have four: "4 \<le> length (concat segs)" and d: "LittleEndian_Uint32 (take 4 (concat segs)) = Some n"
    by simp_all
  from receiveFileNameLen_delivers[OF four d, of "[]"] obtain segs1 where
    l: "receiveFileNameLen (delivers segs) = (Ok n, delivers segs1)"
    and c1: "concat segs1 = drop 4 (concat segs)"
    by auto
  from a have "length (concat segs) - 4 < unat n" by arith
  with c1 have "length (concat segs1) < unat n" by simp
  from io_ReadFull_closes[OF this]
  have "io_ReadFull (delivers segs1) (unat n)
          = ((concat segs1, Some (if length (concat segs) = 4 then EOF else ErrUnexpectedEOF)), [])"
    using four by (auto simp: c1)
  with l show "receiveFile r (delivers segs) w
        = Some (Err (Errorf ''err receiving file name''
                      (Errorf ''err receiving file name''
                        (if length (concat segs) = 4 then EOF else ErrUnexpectedEOF))), w)"
    by (simp add: receiveFile_def receiveFileName_def)
qed

theorem truncated_handshake_witness:
  "length (concat [[CHR 0x0A, CHR 0x00], [CHR 0x00]]) < 4
   \<and> receiveFile (NewReceiver 4096 9999) (delivers [[CHR 0x0A, CHR 0x00], [CHR 0x00]]) quiet_world
        = Some (Err (Errorf ''err receiving file name''
                      (Errorf ''err receiving file name len''
                        (Errorf ''err receiving file name length'' ErrUnexpectedEOF))), quiet_world)
   \<and> LittleEndian_Uint32 (take 4 (concat [[CHR 0x0A, CHR 0x00], [CHR 0x00, CHR 0x00], ''repo'']))
        = Some 10
   \<and> length (concat [[CHR 0x0A, CHR 0x00], [CHR 0x00, CHR 0x00], ''repo'']) < 4 + unat (10 :: 32 word)
   \<and> receiveFile (NewReceiver 4096 9999)
        (delivers [[CHR 0x0A, CHR 0x00], [CHR 0x00, CHR 0x00], ''repo'']) quiet_world
        = Some (Err (Errorf ''err receiving file name''
                      (Errorf ''err receiving file name'' ErrUnexpectedEOF)), quiet_world)"
  using truncated_handshake[of "[[CHR 0x0A, CHR 0x00], [CHR 0x00]]" "NewReceiver 4096 9999" quiet_world 0]
    truncated_handshake[of "[[CHR 0x0A, CHR 0x00], [CHR 0x00, CHR 0x00], ''repo'']"
      "NewReceiver 4096 9999" quiet_world 10]
  by simp

section \<open>The content phase\<close>

lemma sint_small64:
  fixes n :: "64 word"
  assumes "unat n \<le> 2 ^ 48"
  shows "sint n = int (unat n)"
proof -
  have "unat n < 2 ^ 63" using assms by (rule le_less_trans) simp
  then have "int (unat n) < 2 ^ 63" by (metis of_nat_less_iff of_nat_numeral of_nat_power)
  then have up: "uint n < 2 ^ 63" by simp
  have "- (2 ^ 63) \<le> (0::int)" by simp
  also have "0 \<le> uint n" by simp
  finally have "signed_take_bit 63 (uint n) = uint n"
    using up by (rule signed_take_bit_int_eq_self)
  then show ?thesis by (simp add: sint_uint)
qed

lemma make_bytes_ok: "unat n \<le> maxAlloc \<Longrightarrow> make_bytes n = Inr (unat n)"
  using sint_small64[of n] by (simp add: make_bytes_def maxAlloc_def)



lemma os_Create_ok:
  "create_err w name = None \<Longrightarrow> os_Create name w = (None, w\<lparr>files := (files w)(name \<mapsto> [])\<rparr>)"
  by (simp add: os_Create_def)

lemma content_loop_read_error:
  "0 < k \<Longrightarrow> length bs \<le> k \<Longrightarrow>
     content_loop k name ((bs, Some e) # rest) w t
       = Some (if e = EOF then Inr t else Inl (Errorf ''err receiving file chunk'' e), w)"
  by (subst content_loop.simps) (simp add: conn_Read_short)

lemma content_loop_closed:
  "0 < k \<Longrightarrow> content_loop k name [] w t = Some (Inr t, w)"
  by (subst content_loop.simps) (simp add: conn_Read_closed)

text \<open>
  With a chunk buffer of no bytes, \<^verbatim>\<open>NewReceiver(0, port)\<close>, every read returns
  \<^verbatim>\<open>0, nil\<close> without taking anything from the connection, every write of no bytes
  succeeds, and the loop never ends: the content phase does not return, whatever the
  connection holds.
\<close>

lemma content_loop_zero_aux:
  assumes run: "content_loop k name c w t = Some y"
  shows "k = 0 \<longrightarrow> files w name = None"
proof (rule content_loop.raw_induct
         [where P = "\<lambda>k name c w t y. k = 0 \<longrightarrow> files w name = None", OF _ run])
  fix f :: "nat \<Rightarrow> string \<Rightarrow> conn \<Rightarrow> world \<Rightarrow> 64 word \<Rightarrow> ((err + 64 word) \<times> world) option"
    and k name c w t y
  assume IH: "\<And>k' n' c' w' t' y'. f k' n' c' w' t' = Some y' \<Longrightarrow> k' = 0 \<longrightarrow> files w' n' = None"
    and body: "(case conn_Read c k of
        ((chunk, None), con') \<Rightarrow>
          (case file_Write name chunk w of
             (None, w') \<Rightarrow> f k name con' w' (t + word_of_nat (length chunk))
           | (Some e, w') \<Rightarrow> Some (Inl (Errorf ''err writing chunk to the file'' e), w'))
      | ((chunk, Some e), con') \<Rightarrow>
          (if e = EOF then Some (Inr t, w)
           else Some (Inl (Errorf ''err receiving file chunk'' e), w))) = Some y"
  show "k = 0 \<longrightarrow> files w name = None"
  proof
    assume z: "k = 0"
    show "files w name = None"
    proof (rule ccontr)
      assume "files w name \<noteq> None"
      then obtain old where f: "files w name = Some old" by auto
      have rd: "conn_Read c k = (([], None), c)" using z by (simp add: conn_Read_def)
      have "fits w (length ([] :: byte list))" by (simp add: fits_def split: option.splits)
      from file_Write_fits[OF f this] have wr: "file_Write name [] w = (None, w)"
        by (simp add: appended_Nil)
      from body have "f k name c w (t + word_of_nat (length ([] :: byte list))) = Some y"
        by (simp add: rd wr)
      from IH[OF this] z f show False by simp
    qed
  qed
qed

lemma content_loop_empty_chunk_never_returns:
  "files w name = Some old \<Longrightarrow> content_loop 0 name c w t = None"
  using content_loop_zero_aux[of 0 name c w t] by (cases "content_loop 0 name c w t") auto




text \<open>
  A content loop that returns has only appended to the file, and what it appended is a
  prefix of the bytes of the connection; an error it returns is a read error other than
  \<open>EOF\<close> or a write error.
\<close>

lemma content_loop_only_appends:
  "files w name = Some old \<Longrightarrow> content_loop k name c w t = Some (res, w') \<Longrightarrow>
     \<exists>written rest. files w' name = Some (old @ written)
                  \<and> concat (map fst c) = written @ rest"
proof (cases "k = 0")
  case True
  assume "files w name = Some old" "content_loop k name c w t = Some (res, w')"
  with True content_loop_empty_chunk_never_returns[of w name old c t] show ?thesis by simp
next
  case False
  then have k: "0 < k" by simp
  show "files w name = Some old \<Longrightarrow> content_loop k name c w t = Some (res, w') \<Longrightarrow> ?thesis"
  proof (induction "conn_size c" arbitrary: c w t old rule: less_induct)
    case less
    show ?case
    proof (cases c)
      case Nil
      with less.prems k show ?thesis
        by (simp add: content_loop_closed)
    next
      case (Cons se c')
      obtain bs e where se: "se = (bs, e)" by (cases se)
      show ?thesis
      proof (cases "length bs \<le> k \<and> e \<noteq> None")
        case True
        then obtain er where "e = Some er" by auto
        with True less.prems k show ?thesis
          by (auto simp: Cons se content_loop_read_error split: if_splits)
      next
        case False
        define chunk where "chunk = (if length bs \<le> k then bs else take k bs)"
        define rest where "rest = (if length bs \<le> k then c' else (drop k bs, e) # c')"
        have rd: "conn_Read c k = ((chunk, None), rest)"
          using k False by (auto simp: Cons se chunk_def rest_def conn_Read_short conn_Read_long)
        have smaller: "conn_size rest < conn_size c"
          using k by (auto simp: Cons se rest_def)
        have cat: "concat (map fst c) = chunk @ concat (map fst rest)"
          by (simp add: Cons se chunk_def rest_def)
        obtain we w1 where wr: "file_Write name chunk w = (we, w1)"
          by (cases "file_Write name chunk w")
        show ?thesis
        proof (cases we)
          case (Some x)
          from less.prems(2) have "w' = w1"
            by (subst (asm) content_loop.simps) (simp add: rd wr Some)
          moreover from wr Some less.prems(1) obtain m where
            "files w1 name = Some (old @ take m chunk)"
            by (auto simp: file_Write_def split: option.splits if_splits)
          ultimately show ?thesis
            by (intro exI[of _ "take m chunk"] exI[of _ "drop m chunk @ concat (map fst rest)"])
               (simp add: cat)
        next
          case None
          from wr None less.prems(1) have f1: "files w1 name = Some (old @ chunk)"
            by (auto simp: file_Write_def split: option.splits if_splits)
          from less.prems(2) have
            "content_loop k name rest w1 (t + word_of_nat (length chunk)) = Some (res, w')"
            by (subst (asm) content_loop.simps) (simp add: rd wr None)
          from less.hyps[OF smaller f1 this] obtain written r where
            "files w' name = Some ((old @ chunk) @ written)" "concat (map fst rest) = written @ r"
            by blast
          then show ?thesis
            by (intro exI[of _ "chunk @ written"] exI[of _ r]) (simp add: cat)
        qed
      qed
    qed
  qed
qed

lemma content_loop_error_kinds:
  assumes "files w name = Some old" and "content_loop k name c w t = Some (Inl x, w')"
  shows "(\<exists>e. x = Errorf ''err receiving file chunk'' e \<and> e \<noteq> EOF)
       \<or> (\<exists>e. x = Errorf ''err writing chunk to the file'' e)"
proof (cases "k = 0")
  case True
  with assms content_loop_empty_chunk_never_returns[of w name old c t] show ?thesis by simp
next
  case False
  then have "0 < k" by simp
  from content_loop_returns[OF this, of name c w t] assms(2) show ?thesis
    by auto
qed




text \<open>
  The loop looks at the error before it looks at the bytes, so the statement above is
  about connections that signal \<open>EOF\<close> with no bytes, as TCP connections do. For a reader
  that returns its last bytes together with \<open>EOF\<close>, which \<^verbatim>\<open>io.Reader\<close> allows and the
  connection of a session never does, the loop would leave without writing them.
\<close>

lemma bytes_arriving_with_EOF_are_dropped:
  "map_option (\<lambda>(res, w'). (res, files w' ''out'', logged w'))
     (receiveAndSaveFileContent (NewReceiver 4096 9999)
        [(''hello '', None), (''world'', Some EOF)] ''out''
        (quiet_world\<lparr>files := [''out'' \<mapsto> []]\<rparr>))
   = Some (Ok (), Some ''hello '', [''received 6 bytes from the sender''])"
proof -
  let ?w = "quiet_world\<lparr>files := [''out'' \<mapsto> []]\<rparr>"
  have k: "0 < (4096 :: nat)" by simp
  have f: "files ?w ''out'' = Some []" by simp
  have fit: "fits ?w (length (concat [''hello '']))" by (simp add: fits_def quiet_world_def)
  have "content_loop 4096 ''out'' (delivers [''hello ''] @ [(''world'', Some EOF)]) ?w 0
          = Some (Inr 6, appended ''out'' ''hello '' ?w)"
    using content_loop_delivers[OF k f fit, of "[(''world'', Some EOF)]" 0]
    by (simp add: content_loop_read_error)
  moreover have "files (appended ''out'' ''hello '' ?w) ''out'' = Some ''hello ''"
    using files_appended[OF f, of "''hello ''"] by simp
  moreover have "logged (appended ''out'' ''hello '' ?w) = []"
    by (simp add: appended_def quiet_world_def)
  moreover have "make_bytes 4096 = Inr 4096"
    using make_bytes_ok[of 4096] by (simp add: maxAlloc_def)
  ultimately show ?thesis
    by (simp add: receiveAndSaveFileContent_def NewReceiver_def log_Printf_def
          show_int_def show_nat.simps)
qed




text \<open>
  What a failed content phase leaves behind, first for the phase alone and for any
  connection, then for a whole session on a connection that delivers a name frame and
  content.
\<close>

lemma content_phase_failure:
  assumes f: "files v dest = Some old"
    and run: "receiveAndSaveFileContent r con dest v = Some (Err x, v')"
  shows "((\<exists>e. x = Errorf ''err receiving file chunk'' e \<and> e \<noteq> EOF)
          \<or> (\<exists>e. x = Errorf ''err writing chunk to the file'' e))
       \<and> (\<exists>written unread. files v' dest = Some (old @ written)
                           \<and> concat (map fst con) = written @ unread)"
proof -
  from run obtain k where loop: "content_loop k dest con v 0 = Some (Inl x, v')"
    by (auto simp: receiveAndSaveFileContent_def split: sum.splits option.splits)
  from content_loop_error_kinds[OF f loop] content_loop_only_appends[OF f loop]
  show ?thesis by blast
qed

lemma receiveFile_content_failure:
  assumes "receiveFile r c w
             = Some (Err (Errorf ''err receiving and saving file content'' x), w')"
  shows "\<exists>name c1. receiveFileName c = (Ok name, c1)
           \<and> create_err w (prepareDestFilePath w name) = None
           \<and> receiveAndSaveFileContent r c1 (prepareDestFilePath w name)
                 (w\<lparr>files := (files w)(prepareDestFilePath w name \<mapsto> [])\<rparr>)
               = Some (Err x, w')"
  using assms
  by (auto simp: receiveFile_def Let_def os_Create_def
           split: prod.splits result.splits option.splits)

lemma partial_output_after_failure:
  assumes k: "0 < unat (chunkSize r)" and alloc: "unat (chunkSize r) \<le> maxAlloc"
    and len: "length name < 2 ^ 32"
    and frame: "concat segs = name_frame name @ content"
    and create: "create_err w (prepareDestFilePath w name) = None"
  shows "(e \<noteq> EOF \<and> fits w (length content) \<longrightarrow>
            receiveFile r (delivers segs @ ([], Some e) # rest) w
              = Some (Err (Errorf ''err receiving and saving file content''
                            (Errorf ''err receiving file chunk'' e)),
                      appended (prepareDestFilePath w name) content
                        (w\<lparr>files := (files w)(prepareDestFilePath w name \<mapsto> [])\<rparr>))
            \<and> files (appended (prepareDestFilePath w name) content
                        (w\<lparr>files := (files w)(prepareDestFilePath w name \<mapsto> [])\<rparr>))
                  (prepareDestFilePath w name) = Some content)
       \<and> (room w = Some m \<and> m < length content \<longrightarrow>
            (\<exists>w'. receiveFile r (delivers segs @ tail) w
                     = Some (Err (Errorf ''err receiving and saving file content''
                                   (Errorf ''err writing chunk to the file''
                                     (PathError ''write'' (prepareDestFilePath w name)
                                        (SysErr (write_fault w))))), w')
                 \<and> files w' (prepareDestFilePath w name) = Some (take m content)))"
proof (intro conjI impI)
  let ?dest = "prepareDestFilePath w name"
  let ?w1 = "w\<lparr>files := (files w)(?dest \<mapsto> [])\<rparr>"
  have f1: "files ?w1 ?dest = Some []" by simp
  {
    assume a: "e \<noteq> EOF \<and> fits w (length content)"
    let ?tail = "([], Some e) # rest"
    from receiveFileName_frame[OF len frame, of ?tail] obtain segs' where
      nm: "receiveFileName (delivers segs @ ?tail) = (Ok name, delivers segs' @ ?tail)"
      and c: "concat segs' = content"
      by blast
    have fit: "fits ?w1 (length (concat segs'))"
      using a by (simp add: fits_def c)
    have "content_loop (unat (chunkSize r)) ?dest (delivers segs' @ ?tail) ?w1 0
            = Some (Inl (Errorf ''err receiving file chunk'' e), appended ?dest content ?w1)"
      using a k by (simp add: content_loop_delivers[OF k f1 fit] content_loop_read_error c)
    then show "receiveFile r (delivers segs @ ?tail) w
              = Some (Err (Errorf ''err receiving and saving file content''
                            (Errorf ''err receiving file chunk'' e)),
                      appended ?dest content ?w1)"
      using nm create
      by (simp add: receiveFile_def os_Create_ok receiveAndSaveFileContent_def Let_def
            make_bytes_ok[OF alloc])
    show "files (appended ?dest content ?w1) ?dest = Some content"
      using files_appended[OF f1, of content] by simp
  }
  {
    assume a: "room w = Some m \<and> m < length content"
    from receiveFileName_frame[OF len frame, of tail] obtain segs' where
      nm: "receiveFileName (delivers segs @ tail) = (Ok name, delivers segs' @ tail)"
      and c: "concat segs' = content"
      by blast
    have rm: "room ?w1 = Some m" using a by simp
    have lt: "m < length (concat segs')" using a by (simp add: c)
    from content_loop_storage_full[OF k f1 rm lt, of tail 0] obtain w' where
      "content_loop (unat (chunkSize r)) ?dest (delivers segs' @ tail) ?w1 0
         = Some (Inl (Errorf ''err writing chunk to the file''
                        (PathError ''write'' ?dest (SysErr (write_fault ?w1)))), w')"
      "files w' ?dest = Some ([] @ take m (concat segs'))"
      by blast
    then show "\<exists>w'. receiveFile r (delivers segs @ tail) w
                     = Some (Err (Errorf ''err receiving and saving file content''
                                   (Errorf ''err writing chunk to the file''
                                     (PathError ''write'' ?dest (SysErr (write_fault w))))), w')
                 \<and> files w' ?dest = Some (take m content)"
      using nm create
      by (simp add: receiveFile_def os_Create_ok receiveAndSaveFileContent_def Let_def c
            make_bytes_ok[OF alloc])
  }
qed

lemma dest_a_txt: "prepareDestFilePath quiet_world ''a.txt'' = ''1700000000.txt''"
  by (simp add: prepareDestFilePath_def path_Ext_def show_int_def show_nat.simps quiet_world_def)

text \<open>
  Claim C7. Whatever the chunk size, the connection and the storage are: a session that
  returns the error of the content phase, \<^verbatim>\<open>err receiving and saving file content: x\<close>,
  has received a name and created the destination file, \<open>x\<close> is a read error other than
  \<open>EOF\<close> or a write error, and the destination file holds the bytes written so far, a
  prefix of the content the connection carried after the name frame. Nothing is removed.
  And such sessions exist, with the bytes as expected: for a chunk size from 1 to
  \<open>maxAlloc\<close>, after a name frame and the creation of the file, a read error \<open>e\<close> other
  than \<open>EOF\<close> after the content gives the error \<^verbatim>\<open>err receiving file chunk: e\<close> and leaves
  all of the content in the file; and a storage with room for \<open>m\<close> bytes only, fewer
  than the content, gives the error \<^verbatim>\<open>err writing chunk to the file: write <name>: <fault>\<close>,
  the \<^verbatim>\<open>*PathError\<close> of \<^verbatim>\<open>file.Write\<close>, and leaves the first \<open>m\<close> bytes in the file.
\<close>

theorem partial_output_is_kept:
  "(receiveFile r c w = Some (Err (Errorf ''err receiving and saving file content'' x), w') \<longrightarrow>
      (\<exists>name c1.
          receiveFileName c = (Ok name, c1)
        \<and> receiveAndSaveFileContent r c1 (prepareDestFilePath w name)
              (w\<lparr>files := (files w)(prepareDestFilePath w name \<mapsto> [])\<rparr>)
            = Some (Err x, w')
        \<and> ((\<exists>e. x = Errorf ''err receiving file chunk'' e \<and> e \<noteq> EOF)
             \<or> (\<exists>e. x = Errorf ''err writing chunk to the file'' e))
        \<and> (\<exists>written unread.
               files w' (prepareDestFilePath w name) = Some written
             \<and> concat (map fst c1) = written @ unread)))
   \<and> (0 < unat (chunkSize r) \<and> unat (chunkSize r) \<le> maxAlloc
        \<and> length nm < 2 ^ 32 \<and> concat segs = name_frame nm @ content
        \<and> create_err v (prepareDestFilePath v nm) = None \<longrightarrow>
        (e \<noteq> EOF \<and> fits v (length content) \<longrightarrow>
            receiveFile r (delivers segs @ ([], Some e) # rest) v
              = Some (Err (Errorf ''err receiving and saving file content''
                            (Errorf ''err receiving file chunk'' e)),
                      appended (prepareDestFilePath v nm) content
                        (v\<lparr>files := (files v)(prepareDestFilePath v nm \<mapsto> [])\<rparr>))
            \<and> files (appended (prepareDestFilePath v nm) content
                        (v\<lparr>files := (files v)(prepareDestFilePath v nm \<mapsto> [])\<rparr>))
                  (prepareDestFilePath v nm) = Some content)
        \<and> (room v = Some m \<and> m < length content \<longrightarrow>
            (\<exists>v'. receiveFile r (delivers segs @ tail) v
                     = Some (Err (Errorf ''err receiving and saving file content''
                                   (Errorf ''err writing chunk to the file''
                                     (PathError ''write'' (prepareDestFilePath v nm)
                                        (SysErr (write_fault v))))), v')
                 \<and> files v' (prepareDestFilePath v nm) = Some (take m content))))"
proof (intro conjI impI)
  assume fail: "receiveFile r c w
                  = Some (Err (Errorf ''err receiving and saving file content'' x), w')"
  from receiveFile_content_failure[OF fail] obtain name c1 where
    nm: "receiveFileName c = (Ok name, c1)"
    and run: "receiveAndSaveFileContent r c1 (prepareDestFilePath w name)
                (w\<lparr>files := (files w)(prepareDestFilePath w name \<mapsto> [])\<rparr>)
              = Some (Err x, w')"
    by blast
  have "files (w\<lparr>files := (files w)(prepareDestFilePath w name \<mapsto> [])\<rparr>)
          (prepareDestFilePath w name) = Some []"
    by simp
  from content_phase_failure[OF this run] nm run
  show "\<exists>name c1.
          receiveFileName c = (Ok name, c1)
        \<and> receiveAndSaveFileContent r c1 (prepareDestFilePath w name)
              (w\<lparr>files := (files w)(prepareDestFilePath w name \<mapsto> [])\<rparr>)
            = Some (Err x, w')
        \<and> ((\<exists>e. x = Errorf ''err receiving file chunk'' e \<and> e \<noteq> EOF)
             \<or> (\<exists>e. x = Errorf ''err writing chunk to the file'' e))
        \<and> (\<exists>written unread.
               files w' (prepareDestFilePath w name) = Some written
             \<and> concat (map fst c1) = written @ unread)"
    by (intro exI[of _ name] exI[of _ c1]) simp
next
  assume h: "0 < unat (chunkSize r) \<and> unat (chunkSize r) \<le> maxAlloc
        \<and> length nm < 2 ^ 32 \<and> concat segs = name_frame nm @ content
        \<and> create_err v (prepareDestFilePath v nm) = None"
  then have k: "0 < unat (chunkSize r)" and alloc: "unat (chunkSize r) \<le> maxAlloc"
    and len: "length nm < 2 ^ 32" and frame: "concat segs = name_frame nm @ content"
    and create: "create_err v (prepareDestFilePath v nm) = None"
    by simp_all
  note both = partial_output_after_failure[OF k alloc len frame create, of e rest m tail]
  {
    assume "e \<noteq> EOF \<and> fits v (length content)"
    with both show
      "receiveFile r (delivers segs @ ([], Some e) # rest) v
              = Some (Err (Errorf ''err receiving and saving file content''
                            (Errorf ''err receiving file chunk'' e)),
                      appended (prepareDestFilePath v nm) content
                        (v\<lparr>files := (files v)(prepareDestFilePath v nm \<mapsto> [])\<rparr>))"
      "files (appended (prepareDestFilePath v nm) content
                        (v\<lparr>files := (files v)(prepareDestFilePath v nm \<mapsto> [])\<rparr>))
                  (prepareDestFilePath v nm) = Some content"
      by blast+
  }
  {
    assume "room v = Some m \<and> m < length content"
    with both show
      "\<exists>v'. receiveFile r (delivers segs @ tail) v
                     = Some (Err (Errorf ''err receiving and saving file content''
                                   (Errorf ''err writing chunk to the file''
                                     (PathError ''write'' (prepareDestFilePath v nm)
                                        (SysErr (write_fault v))))), v')
                 \<and> files v' (prepareDestFilePath v nm) = Some (take m content)"
      by blast
  }
qed

theorem partial_output_is_kept_witness:
  "0 < unat (chunkSize (NewReceiver 4 9999)) \<and> unat (chunkSize (NewReceiver 4 9999)) \<le> maxAlloc
   \<and> length ''a.txt'' < (2::nat) ^ 32
   \<and> concat [name_frame ''a.txt'', ''hello '', ''world''] = name_frame ''a.txt'' @ ''hello world''
   \<and> create_err quiet_world (prepareDestFilePath quiet_world ''a.txt'') = None
   \<and> fits quiet_world (length ''hello world'')
   \<and> receiveFile (NewReceiver 4 9999)
        (delivers [name_frame ''a.txt'', ''hello '', ''world'']
           @ ([], Some (SysErr ''connection reset by peer'')) # []) quiet_world
      = Some (Err (Errorf ''err receiving and saving file content''
                    (Errorf ''err receiving file chunk'' (SysErr ''connection reset by peer''))),
              appended ''1700000000.txt'' ''hello world''
                (quiet_world\<lparr>files := (files quiet_world)(''1700000000.txt'' \<mapsto> [])\<rparr>))
   \<and> files (appended ''1700000000.txt'' ''hello world''
              (quiet_world\<lparr>files := (files quiet_world)(''1700000000.txt'' \<mapsto> [])\<rparr>))
        ''1700000000.txt'' = Some ''hello world''
   \<and> (\<exists>name c1.
          receiveFileName (delivers [name_frame ''a.txt'', ''hello '', ''world'']
                             @ ([], Some (SysErr ''connection reset by peer'')) # [])
            = (Ok name, c1)
        \<and> (\<exists>written unread.
               files (appended ''1700000000.txt'' ''hello world''
                        (quiet_world\<lparr>files := (files quiet_world)(''1700000000.txt'' \<mapsto> [])\<rparr>))
                 (prepareDestFilePath quiet_world name) = Some written
             \<and> concat (map fst c1) = written @ unread))
   \<and> room (quiet_world\<lparr>room := Some 7\<rparr>) = Some 7
   \<and> (\<exists>v'. receiveFile (NewReceiver 4 9999)
               (delivers [name_frame ''a.txt'', ''hello '', ''world''] @ [])
               (quiet_world\<lparr>room := Some 7\<rparr>)
             = Some (Err (Errorf ''err receiving and saving file content''
                           (Errorf ''err writing chunk to the file''
                             (PathError ''write'' ''1700000000.txt''
                                (SysErr ''no space left on device'')))), v')
           \<and> files v' ''1700000000.txt'' = Some ''hello w'')"
proof -
  let ?r = "NewReceiver 4 9999"
  let ?e = "SysErr ''connection reset by peer''"
  let ?segs = "[name_frame ''a.txt'', ''hello '', ''world'']"
  let ?c = "delivers ?segs @ ([], Some ?e) # []"
  let ?W = "appended ''1700000000.txt'' ''hello world''
              (quiet_world\<lparr>files := (files quiet_world)(''1700000000.txt'' \<mapsto> [])\<rparr>)"
  let ?x = "Errorf ''err receiving file chunk'' ?e"
  have d2: "prepareDestFilePath (quiet_world\<lparr>room := Some 7\<rparr>) ''a.txt'' = ''1700000000.txt''"
    using dest_a_txt by (simp add: prepareDestFilePath_def)
  have cr: "create_err quiet_world ''1700000000.txt'' = None" by (simp add: quiet_world_def)
  have wf: "write_fault quiet_world = ''no space left on device''"
    by (simp add: quiet_world_def)
  have f: "\<And>n. fits quiet_world n" by (simp add: fits_def quiet_world_def)
  have bounds: "0 < unat (chunkSize ?r) \<and> unat (chunkSize ?r) \<le> maxAlloc"
    by (simp add: NewReceiver_def maxAlloc_def)
  have B: "receiveFile ?r ?c quiet_world
             = Some (Err (Errorf ''err receiving and saving file content'' ?x), ?W)
           \<and> files ?W ''1700000000.txt'' = Some ''hello world''"
    using partial_output_is_kept[where r = ?r and nm = "''a.txt''" and segs = ?segs
            and content = "''hello world''" and v = quiet_world and e = ?e and rest = "[]"]
          bounds
    by (simp add: dest_a_txt cr f)
  have A: "\<exists>name c1.
          receiveFileName ?c = (Ok name, c1)
        \<and> (\<exists>written unread.
               files ?W (prepareDestFilePath quiet_world name) = Some written
             \<and> concat (map fst c1) = written @ unread)"
    using partial_output_is_kept[where r = ?r and c = ?c and w = quiet_world and x = ?x
            and w' = ?W] B
    by blast
  have C: "\<exists>v'. receiveFile ?r (delivers ?segs @ []) (quiet_world\<lparr>room := Some 7\<rparr>)
             = Some (Err (Errorf ''err receiving and saving file content''
                           (Errorf ''err writing chunk to the file''
                             (PathError ''write'' ''1700000000.txt''
                                (SysErr ''no space left on device'')))), v')
           \<and> files v' ''1700000000.txt'' = Some ''hello w''"
    using partial_output_is_kept[where r = ?r and nm = "''a.txt''" and segs = ?segs
            and content = "''hello world''" and v = "quiet_world\<lparr>room := Some 7\<rparr>"
            and m = 7 and tail = "[]"]
          bounds
    by (simp add: d2 cr wf)
  from bounds A B C cr f show ?thesis
    by (simp add: dest_a_txt)
qed

text \<open>
  Claim C10. A name frame that declares length zero is accepted: the name is empty and
  the four bytes are all that is taken from the connection, the extension is empty, the
  destination is the bare timestamp, and the session goes on to create that file and to
  run the content phase on the rest of the connection. When the chunk size is from 1 to
  \<open>maxAlloc\<close>, the peer then closes and nothing fails, the session succeeds and the file
  holds the content.
\<close>

theorem empty_name_is_accepted:
  assumes frame: "concat segs = [CHR 0x00, CHR 0x00, CHR 0x00, CHR 0x00] @ content"
  shows "\<exists>segs'. concat segs' = content
          \<and> receiveFileName (delivers segs @ tail) = (Ok [], delivers segs' @ tail)
          \<and> path_Ext [] = []
          \<and> prepareDestFilePath w [] = show_int (sint (clock w))
          \<and> receiveFile r (delivers segs @ tail) w
               = (case os_Create (show_int (sint (clock w))) w of
                    (Some e, w') \<Rightarrow> Some (Err (Errorf ''err creating dest file'' e), w')
                  | (None, w') \<Rightarrow>
                      (case receiveAndSaveFileContent r (delivers segs' @ tail)
                              (show_int (sint (clock w))) w' of
                         None \<Rightarrow> None
                       | Some (Panicked m, w'') \<Rightarrow> Some (Panicked m, w'')
                       | Some (Err e, w'') \<Rightarrow>
                           Some (Err (Errorf ''err receiving and saving file content'' e), w'')
                       | Some (Ok u, w'') \<Rightarrow> Some (Ok (), w'')))
          \<and> (0 < unat (chunkSize r) \<and> unat (chunkSize r) \<le> maxAlloc
               \<and> create_err w (show_int (sint (clock w))) = None
               \<and> fits w (length content) \<and> tail = [] \<longrightarrow>
                (\<exists>w'. receiveFile r (delivers segs @ tail) w = Some (Ok (), w')
                     \<and> files w' (show_int (sint (clock w))) = Some content))"
proof -
  let ?dest = "show_int (sint (clock w))"
  have d: "LittleEndian_Uint32 (take 4 (concat segs)) = Some 0"
    by (simp add: frame)
  have "4 + unat (0 :: 32 word) \<le> length (concat segs)"
    by (simp add: frame)
  from receiveFileName_delivers[OF d this, of tail] obtain segs' where
    nm: "receiveFileName (delivers segs @ tail) = (Ok [], delivers segs' @ tail)"
    and c: "concat segs' = content"
    by (auto simp: frame)
  have ext: "path_Ext [] = []" by (simp add: path_Ext_def)
  have dest: "prepareDestFilePath w [] = ?dest"
    by (simp add: prepareDestFilePath_def ext)
  have run: "receiveFile r (delivers segs @ tail) w
               = (case os_Create ?dest w of
                    (Some e, w') \<Rightarrow> Some (Err (Errorf ''err creating dest file'' e), w')
                  | (None, w') \<Rightarrow>
                      (case receiveAndSaveFileContent r (delivers segs' @ tail) ?dest w' of
                         None \<Rightarrow> None
                       | Some (Panicked m, w'') \<Rightarrow> Some (Panicked m, w'')
                       | Some (Err e, w'') \<Rightarrow>
                           Some (Err (Errorf ''err receiving and saving file content'' e), w'')
                       | Some (Ok u, w'') \<Rightarrow> Some (Ok (), w'')))"
    by (simp add: receiveFile_def nm dest Let_def)
  have full: "\<exists>w'. receiveFile r (delivers segs @ tail) w = Some (Ok (), w')
                  \<and> files w' ?dest = Some content"
    if a: "0 < unat (chunkSize r) \<and> unat (chunkSize r) \<le> maxAlloc
           \<and> create_err w ?dest = None \<and> fits w (length content) \<and> tail = []"
  proof -
    let ?w1 = "w\<lparr>files := (files w)(?dest \<mapsto> [])\<rparr>"
    from a have k: "0 < unat (chunkSize r)" and alloc: "unat (chunkSize r) \<le> maxAlloc"
      by simp_all
    have f1: "files ?w1 ?dest = Some []" by simp
    have fit: "fits ?w1 (length (concat segs'))" using a by (simp add: fits_def c)
    have "content_loop (unat (chunkSize r)) ?dest (delivers segs' @ []) ?w1 0
            = Some (Inr (0 + word_of_nat (length (concat segs'))), appended ?dest (concat segs') ?w1)"
      using k by (simp only: content_loop_delivers[OF k f1 fit] content_loop_closed)
    moreover have "files (appended ?dest content ?w1) ?dest = Some content"
      using files_appended[OF f1, of content] by simp
    moreover from a have t: "tail = []" by simp
    note run[unfolded t append_Nil2]
    ultimately show ?thesis
      using a by (simp add: os_Create_ok receiveAndSaveFileContent_def c log_Printf_def
                    make_bytes_ok[OF alloc])
  qed
  from c nm ext dest run full show ?thesis by blast
qed

theorem empty_name_is_accepted_witness:
  "concat [[CHR 0x00, CHR 0x00], [CHR 0x00, CHR 0x00] @ ''hello '', ''world'']
     = [CHR 0x00, CHR 0x00, CHR 0x00, CHR 0x00] @ ''hello world''
   \<and> 0 < unat (chunkSize (NewReceiver 4 9999))
   \<and> unat (chunkSize (NewReceiver 4 9999)) \<le> maxAlloc
   \<and> create_err quiet_world ''1700000000'' = None
   \<and> fits quiet_world (length ''hello world'')
   \<and> (\<exists>w'. receiveFile (NewReceiver 4 9999)
               (delivers [[CHR 0x00, CHR 0x00], [CHR 0x00, CHR 0x00] @ ''hello '', ''world''])
               quiet_world = Some (Ok (), w')
           \<and> files w' ''1700000000'' = Some ''hello world'')"
proof -
  have s: "show_int (sint (clock quiet_world)) = ''1700000000''"
    by (simp add: show_int_def show_nat.simps quiet_world_def)
  have c: "create_err quiet_world ''1700000000'' = None" by (simp add: quiet_world_def)
  have f: "\<And>n. fits quiet_world n" by (simp add: fits_def quiet_world_def)
  show ?thesis
    using empty_name_is_accepted[of
            "[[CHR 0x00, CHR 0x00], [CHR 0x00, CHR 0x00] @ ''hello '', ''world'']"
            "''hello world''" "[]" quiet_world "NewReceiver 4 9999"]
    by (auto simp: s c f NewReceiver_def maxAlloc_def)
qed

section \<open>Discovery\<close>

lemma strings_Split_no_sep: "sep \<notin> set s \<Longrightarrow> strings_Split s sep = [s]"
  by (induction s) auto

lemma strings_Split_at_sep:
  "\<exists>p ps. strings_Split (a @ sep # b) sep = (p # ps) @ strings_Split b sep"
proof (induction a)
  case Nil
  show ?case by (intro exI[of _ "[]"]) simp
next
  case (Cons x a)
  then obtain p ps where "strings_Split (a @ sep # b) sep = (p # ps) @ strings_Split b sep"
    by blast
  then show ?case
    by (cases "x = sep") auto
qed

lemma strings_Split_not_Nil: "strings_Split s sep \<noteq> []"
  by (induction s) (auto split: list.splits)

lemma last_strings_Split:
  "last (strings_Split s sep) = rev (takeWhile (\<lambda>c. c \<noteq> sep) (rev s))"
proof (cases "sep \<in> set s")
  case False
  then have tw: "takeWhile (\<lambda>c. c \<noteq> sep) (rev s) = rev s"
    by (auto simp: takeWhile_eq_all_conv)
  show ?thesis
    unfolding strings_Split_no_sep[OF False] tw by simp
next
  case True
  then obtain a b where s: "s = a @ sep # b" and b: "sep \<notin> set b"
    by (auto dest: split_list_last)
  from strings_Split_at_sep[of a sep b] obtain p ps where
    "strings_Split s sep = (p # ps) @ strings_Split b sep"
    by (auto simp: s)
  then have "last (strings_Split s sep) = b"
    using b by (simp add: strings_Split_no_sep)
  moreover have "takeWhile (\<lambda>c. c \<noteq> sep) (rev b @ sep # rev a) = rev b"
    using b by (subst takeWhile_tail) (auto simp: takeWhile_eq_all_conv)
  ultimately show ?thesis by (simp add: s)
qed

lemma discover_run:
  assumes "udp_listen w (sint (udpDiscoveryPort r)) = None" and "udp_datagram w = Inr d"
  shows "discover r w
           = Ok (''localhost:'' @ rev (takeWhile (\<lambda>c. c \<noteq> CHR '' '') (rev (take 1024 d))))"
proof -
  have "last (strings_Split (take 1024 d) CHR '' '')
          = rev (takeWhile (\<lambda>c. c \<noteq> CHR '' '') (rev (take 1024 d)))"
    by (rule last_strings_Split)
  then show ?thesis
    using assms strings_Split_not_Nil[of "take 1024 d" "CHR '' ''"]
    by (simp add: discover_def ReadFromUDP_def Let_def last_conv_nth)
qed

text \<open>
  Claim C4, as amended. The listener cuts the first 1024 bytes of the datagram at every
  space character, and at no other white space, and takes what follows the last space
  (all of the text when it has no space, nothing when it ends in one) as the port of
  \<^verbatim>\<open>localhost:<port>\<close>. The texts \<^verbatim>\<open>HELLO 51234\<close> and \<^verbatim>\<open>51234\<close> both give
  \<^verbatim>\<open>localhost:51234\<close>.
\<close>

theorem discover_takes_what_follows_the_last_space:
  assumes "udp_listen w (sint (udpDiscoveryPort r)) = None" and "udp_datagram w = Inr d"
  shows "discover r w
           = Ok (''localhost:'' @ rev (takeWhile (\<lambda>c. c \<noteq> CHR '' '') (rev (take 1024 d))))
       \<and> (d = ''HELLO 51234'' \<longrightarrow> discover r w = Ok ''localhost:51234'')
       \<and> (d = ''51234'' \<longrightarrow> discover r w = Ok ''localhost:51234'')"
  using discover_run[OF assms] by auto

theorem discover_takes_what_follows_the_last_space_witness:
  "udp_listen quiet_world (sint (udpDiscoveryPort (NewReceiver 4096 9999))) = None
   \<and> udp_datagram quiet_world = Inr ''HELLO 51234''
   \<and> discover (NewReceiver 4096 9999) quiet_world = Ok ''localhost:51234''
   \<and> udp_datagram (quiet_world\<lparr>udp_datagram := Inr ''51234''\<rparr>) = Inr ''51234''
   \<and> discover (NewReceiver 4096 9999) (quiet_world\<lparr>udp_datagram := Inr ''51234''\<rparr>)
        = Ok ''localhost:51234''"
  using discover_takes_what_follows_the_last_space[of quiet_world "NewReceiver 4096 9999" "''HELLO 51234''"]
    discover_takes_what_follows_the_last_space[of "quiet_world\<lparr>udp_datagram := Inr ''51234''\<rparr>"
      "NewReceiver 4096 9999" "''51234''"]
  by (simp add: quiet_world_def)

text \<open>
  Claim C4 as it was stated fails: with a tab between the two words, splitting on
  whitespace gives the last token \<^verbatim>\<open>51234\<close>, and the listener gives the whole text.
\<close>

theorem discover_tab_counterexample:
  "discover (NewReceiver 4096 9999)
     (quiet_world\<lparr>udp_datagram := Inr (''HELLO'' @ [CHR 0x09] @ ''51234'')\<rparr>)
     = Ok (''localhost:HELLO'' @ [CHR 0x09] @ ''51234'')
   \<and> last_token_address (''HELLO'' @ [CHR 0x09] @ ''51234'') = ''localhost:51234''
   \<and> discover (NewReceiver 4096 9999)
        (quiet_world\<lparr>udp_datagram := Inr (''HELLO'' @ [CHR 0x09] @ ''51234'')\<rparr>)
        \<noteq> Ok (last_token_address (''HELLO'' @ [CHR 0x09] @ ''51234''))"
  by (simp add: discover_def ReadFromUDP_def quiet_world_def last_token_address_def
        whitespace_fields_def isSpace_def)

text \<open>
  Claim C9. What the listener returns for a datagram is what it returns for the first
  1024 bytes of that datagram: the bytes after them have no effect.
\<close>

theorem discover_reads_1024_bytes:
  "discover r (w\<lparr>udp_datagram := Inr d\<rparr>) = discover r (w\<lparr>udp_datagram := Inr (take 1024 d)\<rparr>)"
  by (simp add: discover_def ReadFromUDP_def split: option.splits)

section \<open>The destination name\<close>

lemma final_element_snoc:
  "final_element (xs @ [x]) = (if x = CHR ''/'' then [] else final_element xs @ [x])"
  by (simp add: final_element_def)

lemma suffix_from_last_dot_snoc:
  "suffix_from_last_dot (s @ [x])
     = (if x = CHR ''.'' then ''.''
        else if CHR ''.'' \<in> set s then suffix_from_last_dot s @ [x] else [])"
  by (simp add: suffix_from_last_dot_def)

lemma dot_in_final_element:
  "CHR ''.'' \<in> set (final_element xs) \<longleftrightarrow> suffix_from_last_dot (final_element xs) \<noteq> []"
  by (simp add: suffix_from_last_dot_def)

lemma Ext_loop_prefix:
  "\<forall>c \<in> set ys. c \<noteq> CHR ''/'' \<and> c \<noteq> CHR ''.'' \<Longrightarrow>
     Ext_loop (xs @ ys) (length xs)
       = (if suffix_from_last_dot (final_element xs) = [] then []
          else suffix_from_last_dot (final_element xs) @ ys)"
proof (induction xs arbitrary: ys rule: rev_induct)
  case Nil
  then show ?case by (simp add: final_element_def suffix_from_last_dot_def)
next
  case (snoc x xs)
  have at: "((xs @ [x]) @ ys) ! length xs = x" by simp
  show ?case
  proof (cases "x = CHR ''/'' \<or> x = CHR ''.''")
    case True
    then show ?thesis
      using at by (auto simp: final_element_snoc suffix_from_last_dot_snoc suffix_from_last_dot_def)
  next
    case False
    with snoc.prems have "\<forall>c \<in> set (x # ys). c \<noteq> CHR ''/'' \<and> c \<noteq> CHR ''.''" by simp
    from snoc.IH[OF this] have
      "Ext_loop (xs @ x # ys) (length xs)
         = (if suffix_from_last_dot (final_element xs) = [] then []
            else suffix_from_last_dot (final_element xs) @ x # ys)" .
    with False at show ?thesis
      by (simp add: final_element_snoc suffix_from_last_dot_snoc dot_in_final_element)
  qed
qed

lemma path_Ext_final_element: "path_Ext p = suffix_from_last_dot (final_element p)"
  using Ext_loop_prefix[of "[]" p] by (simp add: path_Ext_def)

lemma final_element_after_slash: "final_element (dir @ ''/'' @ name) = final_element name"
proof -
  have "takeWhile (\<lambda>c. c \<noteq> CHR ''/'') (rev name @ CHR ''/'' # rev dir)
          = takeWhile (\<lambda>c. c \<noteq> CHR ''/'') (rev name)"
    by (rule takeWhile_tail) simp
  then show ?thesis by (simp add: final_element_def)
qed

text \<open>
  Claim C5, as amended. The destination name is the Unix time in seconds followed by the
  extension, and the extension is the substring from the last dot of the final path
  element (what follows the last slash) to the end, empty when that element has no
  dot. Directory components have no effect: a name and the same name below a directory
  give the same destination.
\<close>

theorem destination_name_of_final_element:
  "prepareDestFilePath w name
     = show_int (sint (clock w)) @ suffix_from_last_dot (final_element name)
   \<and> prepareDestFilePath w (dir @ ''/'' @ name) = prepareDestFilePath w name"
  by (simp add: prepareDestFilePath_def path_Ext_final_element final_element_after_slash
        del: append_Cons append_Nil)

text \<open>
  Claim C5 as it was stated fails: in \<^verbatim>\<open>a.b/c\<close> the last dot of the name is in a
  directory component, and the destination has no extension.
\<close>

theorem dotted_directory_counterexample:
  "prepareDestFilePath quiet_world ''a.b/c'' = ''1700000000''
   \<and> show_int (sint (clock quiet_world)) @ suffix_from_last_dot ''a.b/c'' = ''1700000000.b/c''
   \<and> prepareDestFilePath quiet_world ''a.b/c''
        \<noteq> show_int (sint (clock quiet_world)) @ suffix_from_last_dot ''a.b/c''"
  by (simp add: prepareDestFilePath_def path_Ext_def suffix_from_last_dot_def quiet_world_def
        show_int_def show_nat.simps)

section \<open>The top-level handler\<close>

text \<open>
  Claim C8. When discovery gives a peer and the dial to it fails, \<^verbatim>\<open>Handle\<close> returns no
  error, and the world differs from the one before by one log line only: no connection
  exists, so nothing is read, and no file is touched.
\<close>

theorem unreachable_peer_is_skipped:
  assumes "discover r w = Ok peer" and "tcp_dial w peer = Inl e"
  shows "Handle r w = Some (Ok (), log_Printf (''err connecting to peer: '' @ err_Error e) w)
       \<and> files (log_Printf (''err connecting to peer: '' @ err_Error e) w) = files w
       \<and> logged (log_Printf (''err connecting to peer: '' @ err_Error e) w)
           = logged w @ [''err connecting to peer: '' @ err_Error e]"
  using assms by (simp add: Handle_def log_Printf_def)

theorem unreachable_peer_is_skipped_witness:
  "discover (NewReceiver 4096 9999) quiet_world = Ok ''localhost:51234''
   \<and> tcp_dial quiet_world ''localhost:51234'' = Inl (SysErr ''connection refused'')
   \<and> Handle (NewReceiver 4096 9999) quiet_world
        = Some (Ok (), log_Printf ''err connecting to peer: connection refused'' quiet_world)
   \<and> files (log_Printf ''err connecting to peer: connection refused'' quiet_world) = Map.empty
   \<and> logged (log_Printf ''err connecting to peer: connection refused'' quiet_world)
        = [''err connecting to peer: connection refused'']"
proof -
  have d: "discover (NewReceiver 4096 9999) quiet_world = Ok ''localhost:51234''"
    by (simp add: discover_def ReadFromUDP_def quiet_world_def)
  have t: "tcp_dial quiet_world ''localhost:51234'' = Inl (SysErr ''connection refused'')"
    by (simp add: quiet_world_def)
  from unreachable_peer_is_skipped[OF d t] d t show ?thesis
    by (simp add: quiet_world_def log_Printf_def)
qed

end
